theory Spec2Isabelle
  imports Complex_Main
begin

section \<open>Data model\<close>

text \<open>
  The classification service \<^verbatim>\<open>src/services/wasteClassifier.ts\<close> imports the enum
  \<^verbatim>\<open>WasteCategory\<close> and the interface \<^verbatim>\<open>ClassificationResult\<close> from \<^verbatim>\<open>../types\<close>, and the
  rule table \<^verbatim>\<open>WASTE_MAPPINGS\<close> and the text \<^verbatim>\<open>UNKNOWN_INSTRUCTIONS\<close> from \<^verbatim>\<open>../constants\<close>.
  Neither module is part of the sources at hand. The enum members are the ones named in
  \<^verbatim>\<open>src/App.tsx\<close> (\<^verbatim>\<open>getCategoryStyles\<close>) and in \<^verbatim>\<open>getUnknownResult\<close>; the fields of a
  result and of a table row are the ones \<^verbatim>\<open>mapLabelToWaste\<close> reads and writes. The values
  of the two constants and the run-time string of each enum member are parameters of the
  model, collected in the record \<open>constants\<close>.

  A JavaScript string is modelled as a \<^typ>\<open>string\<close>; \<^verbatim>\<open>toLowerCase\<close> is modelled on ASCII
  letters, which is the alphabet of the classifier's labels. A JavaScript number is
  modelled as a \<^typ>\<open>real\<close>: the code only copies and compares numbers.
\<close>

datatype WasteCategory = ORGANIC | PLASTIC | PAPER | METAL | GLASS | E_WASTE | UNKNOWN

record WasteMapping =
  "keywords" :: "string list"
  category :: WasteCategory
  instructions :: string

record ClassificationResult =
  category :: WasteCategory
  confidence :: real
  label :: string
  reasoning :: string
  disposalInstructions :: string

record constants =
  WASTE_MAPPINGS :: "WasteMapping list"
  UNKNOWN_INSTRUCTIONS :: string
  WasteCategory_text :: "WasteCategory \<Rightarrow> string"

section \<open>String and array primitives\<close>

text \<open>\<^verbatim>\<open>String.prototype.toLowerCase\<close>, on ASCII: \<^verbatim>\<open>A\<close>..\<^verbatim>\<open>Z\<close> (codes 65..90) get bit 5 set.\<close>

definition toLowerCase_char :: "char \<Rightarrow> char" where
  "toLowerCase_char c =
     (if 65 \<le> (of_char c :: nat) \<and> (of_char c :: nat) \<le> 90
      then (case c of Char b0 b1 b2 b3 b4 b5 b6 b7 \<Rightarrow> Char b0 b1 b2 b3 b4 True b6 b7)
      else c)"

definition toLowerCase :: "string \<Rightarrow> string" where
  "toLowerCase s = map toLowerCase_char s"

text \<open>\<^verbatim>\<open>String.prototype.startsWith\<close> and \<^verbatim>\<open>String.prototype.includes\<close> (from position 0).\<close>

fun String_startsWith :: "string \<Rightarrow> string \<Rightarrow> bool" where
  "String_startsWith s [] = True"
| "String_startsWith [] (k # ks) = False"
| "String_startsWith (c # cs) (k # ks) = (c = k \<and> String_startsWith cs ks)"

fun String_includes :: "string \<Rightarrow> string \<Rightarrow> bool" where
  "String_includes [] k = (k = [])"
| "String_includes (c # cs) k = (String_startsWith (c # cs) k \<or> String_includes cs k)"

text \<open>
  \<^verbatim>\<open>String.prototype.split\<close> with a one-character separator: the pieces between the
  separators, at least one piece. \<^verbatim>\<open>label.split(',')[0]\<close> is \<open>String_split CHR '','' label ! 0\<close>.
\<close>

fun String_split :: "char \<Rightarrow> string \<Rightarrow> string list" where
  "String_split sep [] = [[]]"
| "String_split sep (c # cs) =
     (if c = sep then [] # String_split sep cs
      else (c # hd (String_split sep cs)) # tl (String_split sep cs))"

text \<open>
  \<^verbatim>\<open>Array.prototype.find\<close> is \<^const>\<open>List.find\<close>: the first element that satisfies the
  predicate, or \<^verbatim>\<open>undefined\<close> (\<^const>\<open>None\<close>). The result of \<^verbatim>\<open>find\<close> is then tested with
  \<^verbatim>\<open>if (match)\<close>: \<^verbatim>\<open>undefined\<close> and the empty string are falsy, every other string is truthy.
\<close>

definition truthy :: "string option \<Rightarrow> bool" where
  "truthy match = (case match of None \<Rightarrow> False | Some s \<Rightarrow> s \<noteq> [])"

section \<open>The category mapper\<close>

text \<open>
  \<^verbatim>\<open>getUnknownResult(label = 'Unknown Object', confidence = 0)\<close>: an argument left out is
  \<^const>\<open>None\<close> and takes its default. The parameters \<^verbatim>\<open>label\<close> and \<^verbatim>\<open>confidence\<close> are written
  \<open>label_arg\<close> and \<open>confidence_arg\<close>, the plain names being the fields of the result.
\<close>

definition getUnknownResult :: "constants \<Rightarrow> string option \<Rightarrow> real option \<Rightarrow> ClassificationResult" where
  "getUnknownResult K label_arg confidence_arg =
     (let l = (case label_arg of None \<Rightarrow> ''Unknown Object'' | Some x \<Rightarrow> x);
          c = (case confidence_arg of None \<Rightarrow> 0 | Some x \<Rightarrow> x)
      in \<lparr> category = UNKNOWN,
           confidence = c,
           label = String_split CHR '','' l ! 0,
           reasoning = ''The system detected '' @ [CHR 0x27] @ String_split CHR '','' l ! 0 @ [CHR 0x27]
             @ '' but could not match it to a specific waste stream with high confidence.'',
           disposalInstructions = UNKNOWN_INSTRUCTIONS K \<rparr>)"

text \<open>
  The loop \<^verbatim>\<open>for (const mapping of WASTE_MAPPINGS)\<close> of \<^verbatim>\<open>mapLabelToWaste\<close>, as a recursion
  over the rows that are left; falling out of the loop is the call of \<^verbatim>\<open>getUnknownResult\<close>.
\<close>

fun mapLabelToWaste_for ::
  "constants \<Rightarrow> string \<Rightarrow> string \<Rightarrow> real \<Rightarrow> WasteMapping list \<Rightarrow> ClassificationResult" where
  "mapLabelToWaste_for K lowerLabel label_arg confidence_arg [] =
     getUnknownResult K (Some label_arg) (Some confidence_arg)"
| "mapLabelToWaste_for K lowerLabel label_arg confidence_arg (mapping # rest) =
     (let match = List.find (\<lambda>keyword. String_includes lowerLabel (toLowerCase keyword))
                    (keywords mapping)
      in if truthy match
         then \<lparr> category = WasteMapping.category mapping,
                confidence = confidence_arg,
                label = String_split CHR '','' label_arg ! 0,
                reasoning = ''Identified as '' @ [CHR 0x27] @ String_split CHR '','' label_arg ! 0 @ [CHR 0x27]
                  @ '' which typically falls under ''
                  @ WasteCategory_text K (WasteMapping.category mapping) @ ''.'',
                disposalInstructions = instructions mapping \<rparr>
         else mapLabelToWaste_for K lowerLabel label_arg confidence_arg rest)"

definition mapLabelToWaste :: "constants \<Rightarrow> string \<Rightarrow> real \<Rightarrow> ClassificationResult" where
  "mapLabelToWaste K label_arg confidence_arg =
     (let lowerLabel = toLowerCase label_arg
      in mapLabelToWaste_for K lowerLabel label_arg confidence_arg (WASTE_MAPPINGS K))"

section \<open>Notions used to state the mapper's properties\<close>

text \<open>
  The following predicates are not part of the program. They say what the specification
  means by "a keyword is a case-insensitive substring of the label", by "a rule matches"
  and by "the first alias of a label", independently of how the code computes them.
\<close>

definition ci_equal :: "string \<Rightarrow> string \<Rightarrow> bool" where
  "ci_equal a b = list_all2 (\<lambda>x y. toLowerCase_char x = toLowerCase_char y) a b"

definition ci_substring :: "string \<Rightarrow> string \<Rightarrow> bool" where
  "ci_substring k L = (\<exists>ps mid ss. L = ps @ mid @ ss \<and> ci_equal k mid)"

definition rule_matches :: "WasteMapping \<Rightarrow> string \<Rightarrow> bool" where
  "rule_matches m L = (\<exists>k \<in> set (keywords m). ci_substring k L)"

definition first_alias :: "string \<Rightarrow> string" where
  "first_alias L = takeWhile (\<lambda>x. x \<noteq> CHR '','') L"

section \<open>A concrete rule table\<close>

text \<open>
  A small table to evaluate the mapper on. A label such as \<^verbatim>\<open>Water BOTTLE cap, can\<close> matches
  its second row and, with a longer keyword, its third row.
\<close>

definition example_constants :: constants where
  "example_constants =
     \<lparr> WASTE_MAPPINGS =
         [ \<lparr> keywords = [''banana'', ''Fruit''], WasteMapping.category = ORGANIC,
             instructions = ''Compost it.'' \<rparr>,
           \<lparr> keywords = [''bottle''], WasteMapping.category = PLASTIC,
             instructions = ''Rinse and recycle.'' \<rparr>,
           \<lparr> keywords = [''can'', ''bottle cap''], WasteMapping.category = METAL,
             instructions = ''Metal bin.'' \<rparr> ],
       UNKNOWN_INSTRUCTIONS = ''Ask your local waste authority.'',
       WasteCategory_text =
         (\<lambda>c. case c of ORGANIC \<Rightarrow> ''Organic'' | PLASTIC \<Rightarrow> ''Plastic'' | PAPER \<Rightarrow> ''Paper''
               | METAL \<Rightarrow> ''Metal'' | GLASS \<Rightarrow> ''Glass'' | E_WASTE \<Rightarrow> ''E-Waste''
               | UNKNOWN \<Rightarrow> ''Unknown'') \<rparr>"

section \<open>The classifier object and its asynchronous methods\<close>

text \<open>
  JavaScript runs one task at a time. An \<^verbatim>\<open>async\<close> function runs until it returns, throws
  or reaches an \<^verbatim>\<open>await\<close> on a promise that is still pending; there it is suspended, other
  tasks run, and it is resumed when the promise settles. A call of an \<^verbatim>\<open>async\<close> function is
  therefore modelled by two functions on the state of the object: the call itself, which
  runs up to the first suspension, and a \<open>resume\<close> function, which takes the await point
  where the call is suspended and the event that settles the awaited promise, and runs
  up to the next suspension. The result of either is the new state and one of: the
  call's promise is fulfilled with a value, it is rejected with an error, or the call is
  suspended at an await point.

  An \<^verbatim>\<open>await\<close> on a promise that is already settled continues in the same turn of the
  event loop, ahead of every timer, network or DOM event; the model runs that
  continuation in the same step. Output to the console is left out.
\<close>

datatype Error = Error string

datatype ('a, 'pc) async = Fulfilled 'a | Rejected Error | Suspended 'pc

text \<open>How a promise of a library or of the browser settles: with a value, or with a rejection.\<close>

datatype 'a outcome = resolves 'a | rejects

datatype MobileNet = MobileNet nat

record prediction =
  className :: string
  probability :: real

record WasteClassifier =
  model :: "MobileNet option"
  isModelLoading :: bool

text \<open>
  The events that resume a suspended call: \<^verbatim>\<open>tf.ready()\<close> settles, \<^verbatim>\<open>mobilenet.load(...)\<close>
  settles, \<^verbatim>\<open>this.model.classify(element)\<close> settles (with an array of predictions, or with
  \<^verbatim>\<open>null\<close>/\<^verbatim>\<open>undefined\<close>, which is \<^const>\<open>None\<close>), the image element fires \<^verbatim>\<open>onload\<close> or \<^verbatim>\<open>onerror\<close>.
\<close>

datatype event =
    tf_ready "unit outcome"
  | mobilenet_load "MobileNet outcome"
  | model_classify "prediction list option outcome"
  | img_onload
  | img_onerror

subsection \<open>\<^verbatim>\<open>loadModel\<close>\<close>

datatype loadModel_pc = await_tf_ready | await_mobilenet_load

definition loadModel :: "WasteClassifier \<Rightarrow> WasteClassifier \<times> (unit, loadModel_pc) async" where
  "loadModel this =
     (if model this \<noteq> None then (this, Fulfilled ())
      else if isModelLoading this then (this, Fulfilled ())
      else (this\<lparr>isModelLoading := True\<rparr>, Suspended await_tf_ready))"

text \<open>The \<^verbatim>\<open>catch\<close> block followed by the \<^verbatim>\<open>finally\<close> block.\<close>

definition loadModel_catch :: "WasteClassifier \<Rightarrow> WasteClassifier \<times> (unit, loadModel_pc) async" where
  "loadModel_catch this =
     (this\<lparr>isModelLoading := False\<rparr>,
      Rejected (Error ''Failed to initialize local AI engine. Check your internet for the initial download.''))"

fun loadModel_resume ::
  "loadModel_pc \<Rightarrow> event \<Rightarrow> WasteClassifier \<Rightarrow> (WasteClassifier \<times> (unit, loadModel_pc) async) option" where
  "loadModel_resume await_tf_ready (tf_ready (resolves _)) this =
     Some (this, Suspended await_mobilenet_load)"
| "loadModel_resume await_tf_ready (tf_ready rejects) this = Some (loadModel_catch this)"
| "loadModel_resume await_mobilenet_load (mobilenet_load (resolves m)) this =
     Some (this\<lparr>model := Some m, isModelLoading := False\<rparr>, Fulfilled ())"
| "loadModel_resume await_mobilenet_load (mobilenet_load rejects) this = Some (loadModel_catch this)"
| "loadModel_resume _ _ this = None"

subsection \<open>\<^verbatim>\<open>classifyElement\<close>\<close>

text \<open>
  The argument \<^verbatim>\<open>element\<close> is only handed to \<^verbatim>\<open>this.model.classify\<close>, whose answer is the
  payload of the event \<open>model_classify\<close>; it is not a parameter of the model. The
  \<^verbatim>\<open>await this.loadModel()\<close> stands outside the \<^verbatim>\<open>try\<close> block: an error of \<^verbatim>\<open>loadModel\<close> is
  passed on as it is.
\<close>

datatype classifyElement_pc = in_loadModel loadModel_pc | await_model_classify

text \<open>From \<^verbatim>\<open>if (!this.model) throw ...\<close> to the call of \<^verbatim>\<open>this.model.classify(element)\<close>.\<close>

definition classifyElement_checked ::
  "WasteClassifier \<Rightarrow> WasteClassifier \<times> (ClassificationResult, classifyElement_pc) async" where
  "classifyElement_checked this =
     (case model this of
        None \<Rightarrow> (this, Rejected (Error ''Model initialization failed''))
      | Some m \<Rightarrow> (this, Suspended await_model_classify))"

definition classifyElement ::
  "WasteClassifier \<Rightarrow> WasteClassifier \<times> (ClassificationResult, classifyElement_pc) async" where
  "classifyElement this =
     (if model this = None
      then (case loadModel this of
              (this', Fulfilled _) \<Rightarrow> classifyElement_checked this'
            | (this', Rejected e) \<Rightarrow> (this', Rejected e)
            | (this', Suspended pc) \<Rightarrow> (this', Suspended (in_loadModel pc)))
      else classifyElement_checked this)"

fun classifyElement_resume ::
  "constants \<Rightarrow> classifyElement_pc \<Rightarrow> event \<Rightarrow> WasteClassifier \<Rightarrow>
   (WasteClassifier \<times> (ClassificationResult, classifyElement_pc) async) option" where
  "classifyElement_resume K (in_loadModel pc) ev this =
     (case loadModel_resume pc ev this of
        None \<Rightarrow> None
      | Some (this', Fulfilled _) \<Rightarrow> Some (classifyElement_checked this')
      | Some (this', Rejected e) \<Rightarrow> Some (this', Rejected e)
      | Some (this', Suspended pc') \<Rightarrow> Some (this', Suspended (in_loadModel pc')))"
| "classifyElement_resume K await_model_classify (model_classify (resolves predictions)) this =
     Some (this, Fulfilled
       (case predictions of
          None \<Rightarrow> getUnknownResult K None None
        | Some [] \<Rightarrow> getUnknownResult K None None
        | Some (topResult # _) \<Rightarrow> mapLabelToWaste K (className topResult) (probability topResult)))"
| "classifyElement_resume K await_model_classify (model_classify rejects) this =
     Some (this, Rejected (Error ''Neural analysis failed''))"
| "classifyElement_resume K await_model_classify _ this = None"

subsection \<open>\<^verbatim>\<open>classify\<close>\<close>

text \<open>
  The page holds the exported singleton \<^verbatim>\<open>wasteClassifier\<close> and the browser's store of
  object URLs: the URLs created by \<^verbatim>\<open>URL.createObjectURL\<close> and not yet revoked.
\<close>

record Page =
  wasteClassifier :: WasteClassifier
  objectURLs :: "nat list"
  nextURL :: nat

definition URL_createObjectURL :: "Page \<Rightarrow> Page \<times> nat" where
  "URL_createObjectURL p =
     (p\<lparr>objectURLs := nextURL p # objectURLs p, nextURL := Suc (nextURL p)\<rparr>, nextURL p)"

definition URL_revokeObjectURL :: "nat \<Rightarrow> Page \<Rightarrow> Page" where
  "URL_revokeObjectURL url p = p\<lparr>objectURLs := removeAll url (objectURLs p)\<rparr>"

datatype classify_pc = await_img nat | in_classifyElement nat classifyElement_pc

fun imageUrl :: "classify_pc \<Rightarrow> nat" where
  "imageUrl (await_img url) = url"
| "imageUrl (in_classifyElement url pc) = url"

definition classify :: "Page \<Rightarrow> Page \<times> (ClassificationResult, classify_pc) async" where
  "classify p = (case URL_createObjectURL p of (p', url) \<Rightarrow> (p', Suspended (await_img url)))"

text \<open>
  The body of \<^verbatim>\<open>img.onload\<close> around \<^verbatim>\<open>await this.classifyElement(img)\<close>: while the inner call
  is suspended so is this one; when it is fulfilled the \<^verbatim>\<open>try\<close> branch revokes the URL and
  resolves; when it is rejected the \<^verbatim>\<open>catch\<close> branch revokes the URL and rejects.
\<close>

fun classify_onload ::
  "nat \<Rightarrow> Page \<Rightarrow> WasteClassifier \<times> (ClassificationResult, classifyElement_pc) async \<Rightarrow>
   Page \<times> (ClassificationResult, classify_pc) async" where
  "classify_onload url p (this', Suspended pc) =
     (p\<lparr>wasteClassifier := this'\<rparr>, Suspended (in_classifyElement url pc))"
| "classify_onload url p (this', Fulfilled result) =
     (URL_revokeObjectURL url (p\<lparr>wasteClassifier := this'\<rparr>), Fulfilled result)"
| "classify_onload url p (this', Rejected err) =
     (URL_revokeObjectURL url (p\<lparr>wasteClassifier := this'\<rparr>), Rejected err)"

fun classify_resume ::
  "constants \<Rightarrow> classify_pc \<Rightarrow> event \<Rightarrow> Page \<Rightarrow> (Page \<times> (ClassificationResult, classify_pc) async) option" where
  "classify_resume K (await_img url) img_onload p =
     Some (classify_onload url p (classifyElement (wasteClassifier p)))"
| "classify_resume K (await_img url) img_onerror p =
     Some (URL_revokeObjectURL url p, Rejected (Error ''Failed to process image file''))"
| "classify_resume K (await_img url) _ p = None"
| "classify_resume K (in_classifyElement url pc) ev p =
     (case classifyElement_resume K pc ev (wasteClassifier p) of
        None \<Rightarrow> None
      | Some r \<Rightarrow> Some (classify_onload url p r))"

text \<open>\<open>n\<close> calls of \<^verbatim>\<open>loadModel\<close> one after the other, no awaited promise settling in between.\<close>

fun loadModel_calls ::
  "nat \<Rightarrow> WasteClassifier \<Rightarrow> WasteClassifier \<times> (unit, loadModel_pc) async list" where
  "loadModel_calls 0 this = (this, [])"
| "loadModel_calls (Suc n) this =
     (case loadModel this of (this', r) \<Rightarrow>
        (case loadModel_calls n this' of (this'', rs) \<Rightarrow> (this'', r # rs)))"

text \<open>A page whose model is loaded, with one object URL of some other caller alive.\<close>

definition example_page :: Page where
  "example_page = \<lparr> wasteClassifier = \<lparr>model = Some (MobileNet 1), isModelLoading = False\<rparr>,
                     objectURLs = [3], nextURL = 7 \<rparr>"

section \<open>The live camera view and the result handler of the application\<close>

text \<open>
  \<^verbatim>\<open>CameraView\<close> is a React function component. What the model takes from React:
  \<^item> the refs \<^verbatim>\<open>videoRef\<close>, \<^verbatim>\<open>requestRef\<close> and \<^verbatim>\<open>isProcessingRef\<close> are mutable cells, the same
    cells in every render;
  \<^item> each render creates its own functions \<^verbatim>\<open>processFrame\<close> and \<^verbatim>\<open>scheduleNext\<close>, which read
    the value that the prop \<^verbatim>\<open>isActive\<close> and the state \<^verbatim>\<open>isStreaming\<close> had in that render; a
    timer callback or a suspended call keeps the functions of the render that created it.
    The record \<open>render\<close> holds these two captured values;
  \<^item> \<^verbatim>\<open>setIsStreaming(v)\<close> with a new value causes a render, after which the effect with
    dependencies \<^verbatim>\<open>[isStreaming, isActive]\<close> runs: it calls \<^verbatim>\<open>processFrame\<close> of the new render
    when both are true;
  \<^item> when the parent turns \<^verbatim>\<open>isActive\<close> to false the effect with dependency \<^verbatim>\<open>[isActive]\<close>
    runs its cleanup, \<^verbatim>\<open>stopCamera()\<close>, and then its body, which calls \<^verbatim>\<open>stopCamera()\<close> again;
  \<^item> when the view is unmounted, React first detaches the refs of the elements it removes,
    so that \<^verbatim>\<open>videoRef.current\<close> is \<^verbatim>\<open>null\<close>, and then runs the cleanup of the effect,
    \<^verbatim>\<open>stopCamera()\<close>; the timers and the suspended calls of the view live on.
  The application renders \<^verbatim>\<open>CameraView\<close> in live mode only, with \<^verbatim>\<open>isActive\<close> true and
  \<^verbatim>\<open>onResult = handleLiveResult\<close>: a live session is one mounted view, from the mount (which
  calls \<^verbatim>\<open>startCamera()\<close>) to its deactivation. The application deactivates a session by
  leaving live mode, which unmounts the view (the event \<open>unmount\<close>); the view itself also
  provides for \<^verbatim>\<open>isActive\<close> turning false while it stays mounted (the event \<open>deactivate\<close>).

  \<^verbatim>\<open>wasteClassifier.classifyElement(video)\<close> is an asynchronous call: \<^verbatim>\<open>processFrame\<close> is
  suspended at its \<^verbatim>\<open>await\<close> until the call settles, with a result or with an error, at
  any later time. The tracks of a media stream are \<^verbatim>\<open>live\<close> until stopped; a stream is
  referred to by its index in the list of the streams the browser has handed out. The
  \<^verbatim>\<open>readyState\<close> of the video element changes on its own: the value read by \<^verbatim>\<open>processFrame\<close>
  comes with the event that makes \<^verbatim>\<open>processFrame\<close> run.
\<close>

datatype MediaStreamTrack = live | ended

record HTMLVideoElement =
  srcObject :: "nat option"

record render =
  isActive :: bool
  isStreaming :: bool

record LiveScan =
  videoRef :: "HTMLVideoElement option"
  requestRef :: "nat option"
  isProcessingRef :: bool
  isActive_prop :: bool
  is_unmounted :: bool
  isStreaming_state :: bool
  error_state :: "string option"
  getUserMedia_pending :: bool
  mediaStreams :: "MediaStreamTrack list list"
  timeouts :: "(nat \<times> render) list"
  nextTimeout :: nat
  inferences :: "render list"
  result :: "ClassificationResult option"

text \<open>
  \<open>timeouts\<close> are the pending callbacks of \<^verbatim>\<open>window.setTimeout\<close>, each with its id and the
  render whose \<^verbatim>\<open>processFrame\<close> it will call; \<open>inferences\<close> are the calls of \<^verbatim>\<open>processFrame\<close>
  suspended at \<^verbatim>\<open>await wasteClassifier.classifyElement(video)\<close>, that is, the inferences in
  flight; \<open>result\<close> is the state \<^verbatim>\<open>result\<close> of \<^verbatim>\<open>App\<close>, written by \<^verbatim>\<open>setResult\<close>.
\<close>

subsection \<open>\<^verbatim>\<open>App.handleLiveResult\<close>\<close>

definition handleLiveResult :: "ClassificationResult \<Rightarrow> LiveScan \<Rightarrow> LiveScan" where
  "handleLiveResult newResult w =
     (if confidence newResult > 0.2 then w\<lparr>result := Some newResult\<rparr> else w)"

subsection \<open>Timers\<close>

definition window_setTimeout :: "render \<Rightarrow> LiveScan \<Rightarrow> LiveScan \<times> nat" where
  "window_setTimeout r w =
     (w\<lparr>timeouts := timeouts w @ [(nextTimeout w, r)], nextTimeout := Suc (nextTimeout w)\<rparr>,
      nextTimeout w)"

definition window_clearTimeout :: "nat \<Rightarrow> LiveScan \<Rightarrow> LiveScan" where
  "window_clearTimeout handle w = w\<lparr>timeouts := filter (\<lambda>t. fst t \<noteq> handle) (timeouts w)\<rparr>"

subsection \<open>\<^verbatim>\<open>CameraView\<close>\<close>

definition scheduleNext :: "render \<Rightarrow> LiveScan \<Rightarrow> LiveScan" where
  "scheduleNext r w =
     (if isActive r \<and> isStreaming r
      then (case window_setTimeout r w of (w', handle) \<Rightarrow> w'\<lparr>requestRef := Some handle\<rparr>)
      else w)"

text \<open>\<^verbatim>\<open>if (requestRef.current)\<close>: \<^verbatim>\<open>null\<close> and the number 0 are falsy.\<close>

definition stopCamera :: "LiveScan \<Rightarrow> LiveScan" where
  "stopCamera w =
     (let w1 = (case videoRef w of
                  None \<Rightarrow> w
                | Some video \<Rightarrow>
                    (case srcObject video of
                       None \<Rightarrow> w
                     | Some stream \<Rightarrow>
                         w\<lparr>mediaStreams :=
                              (mediaStreams w)[stream := map (\<lambda>track. ended) (mediaStreams w ! stream)],
                           videoRef := Some (video\<lparr>srcObject := None\<rparr>)\<rparr>));
          w2 = w1\<lparr>isStreaming_state := False\<rparr>;
          w3 = (case requestRef w2 of
                  None \<Rightarrow> w2
                | Some handle \<Rightarrow>
                    if handle \<noteq> 0 then (window_clearTimeout handle w2)\<lparr>requestRef := None\<rparr> else w2)
      in w3\<lparr>isProcessingRef := False\<rparr>)"

text \<open>
  \<open>processFrame r readyState w\<close>: \<^verbatim>\<open>processFrame\<close> of render \<open>r\<close>, from its start to the
  \<^verbatim>\<open>await\<close> (the call joins \<open>inferences\<close>) or, when no inference is started, to its end.
\<close>

definition processFrame :: "render \<Rightarrow> nat \<Rightarrow> LiveScan \<Rightarrow> LiveScan" where
  "processFrame r readyState w =
     (if \<not> isActive r \<or> \<not> isStreaming r \<or> isProcessingRef w then scheduleNext r w
      else (case videoRef w of
              None \<Rightarrow> scheduleNext r w
            | Some video \<Rightarrow>
                if readyState \<ge> 3
                then w\<lparr>isProcessingRef := True, inferences := inferences w @ [r]\<rparr>
                else scheduleNext r w))"

text \<open>
  The rest of \<^verbatim>\<open>processFrame\<close>, run when the awaited call settles: \<^verbatim>\<open>onResult(result)\<close> on a
  result, the empty \<^verbatim>\<open>catch\<close> on an error, then \<^verbatim>\<open>finally\<close> and \<^verbatim>\<open>scheduleNext()\<close>.
\<close>

definition processFrame_resume :: "render \<Rightarrow> ClassificationResult outcome \<Rightarrow> LiveScan \<Rightarrow> LiveScan" where
  "processFrame_resume r settled w =
     (let w1 = (case settled of resolves res \<Rightarrow> handleLiveResult res w | rejects \<Rightarrow> w);
          w2 = w1\<lparr>isProcessingRef := False\<rparr>
      in scheduleNext r w2)"

text \<open>
  The continuation of \<^verbatim>\<open>startCamera\<close> once \<^verbatim>\<open>getUserMedia\<close> has resolved with a stream, with
  the render and the effect that \<^verbatim>\<open>setIsStreaming(true)\<close> brings about.
\<close>

definition startCamera_resume :: "MediaStreamTrack list outcome \<Rightarrow> nat \<Rightarrow> LiveScan \<Rightarrow> LiveScan" where
  "startCamera_resume settled readyState w =
     (case settled of
        rejects \<Rightarrow> w\<lparr>error_state := Some ''Camera access blocked. Please enable permissions and refresh.''\<rparr>
      | resolves tracks \<Rightarrow>
          (let w1 = w\<lparr>mediaStreams := mediaStreams w @ [tracks]\<rparr>
           in case videoRef w1 of
                None \<Rightarrow> w1
              | Some video \<Rightarrow>
                  (let w2 = w1\<lparr>videoRef := Some (video\<lparr>srcObject := Some (length (mediaStreams w))\<rparr>)\<rparr>
                   in if isStreaming_state w2 then w2
                      else (let w3 = w2\<lparr>isStreaming_state := True\<rparr>
                            in if isActive_prop w3
                               then processFrame \<lparr>isActive = isActive_prop w3, isStreaming = True\<rparr> readyState w3
                               else w3))))"

subsection \<open>The events of a live session\<close>

datatype camera_event =
    getUserMedia_settles "MediaStreamTrack list outcome" nat
  | timeout_fires nat nat
  | classifyElement_settles nat "ClassificationResult outcome"
  | deactivate
  | unmount

text \<open>
  \<open>timeout_fires handle readyState\<close>: the pending timeout with id \<open>handle\<close> fires.
  \<open>classifyElement_settles k settled\<close>: the call awaited by the \<open>k\<close>-th suspended
  \<^verbatim>\<open>processFrame\<close> settles. An event that cannot happen in the state (no such timeout, no
  such call, no \<^verbatim>\<open>getUserMedia\<close> request, view already inactive or unmounted) leaves the state
  as it is.
\<close>

fun step :: "camera_event \<Rightarrow> LiveScan \<Rightarrow> LiveScan" where
  "step (getUserMedia_settles settled readyState) w =
     (if getUserMedia_pending w
      then startCamera_resume settled readyState (w\<lparr>getUserMedia_pending := False\<rparr>)
      else w)"
| "step (timeout_fires handle readyState) w =
     (case map_of (timeouts w) handle of
        None \<Rightarrow> w
      | Some r \<Rightarrow> processFrame r readyState (window_clearTimeout handle w))"
| "step (classifyElement_settles k settled) w =
     (if k < length (inferences w)
      then processFrame_resume (inferences w ! k) settled
             (w\<lparr>inferences := take k (inferences w) @ drop (Suc k) (inferences w)\<rparr>)
      else w)"
| "step deactivate w =
     (if isActive_prop w \<and> \<not> is_unmounted w
      then stopCamera (stopCamera (w\<lparr>isActive_prop := False\<rparr>))
      else w)"
| "step unmount w =
     (if is_unmounted w then w else stopCamera (w\<lparr>videoRef := None, is_unmounted := True\<rparr>))"

definition run :: "camera_event list \<Rightarrow> LiveScan \<Rightarrow> LiveScan" where
  "run evs w = foldl (\<lambda>w' ev. step ev w') w evs"

text \<open>The view right after its mount in live mode: \<^verbatim>\<open>startCamera()\<close> has asked for the camera.\<close>

definition mounted :: LiveScan where
  "mounted =
     \<lparr> videoRef = Some \<lparr>srcObject = None\<rparr>, requestRef = None, isProcessingRef = False,
       isActive_prop = True, is_unmounted = False, isStreaming_state = False, error_state = None,
       getUserMedia_pending = True, mediaStreams = [], timeouts = [], nextTimeout = 1,
       inferences = [], result = None \<rparr>"

subsection \<open>Invariants of a mounted view\<close>

text \<open>
  \<open>chain_inv\<close> holds in every state a mounted view can reach: an inference in flight and a
  pending timeout never exist together, nor two of either; and as long as the camera has
  not answered the request of an active view, nothing is in flight or pending.
  \<open>session_inv\<close> holds in addition as long as the view has been neither deactivated nor
  unmounted: the busy flag is set exactly while an inference is in flight, a pending
  timeout is the one \<^verbatim>\<open>requestRef\<close> holds, and a streaming view holds the one stream the
  browser handed out.
\<close>

definition chain_inv :: "LiveScan \<Rightarrow> bool" where
  "chain_inv w \<longleftrightarrow>
     length (inferences w) + length (timeouts w) \<le> 1
     \<and> (getUserMedia_pending w \<and> isActive_prop w \<longrightarrow> inferences w = [] \<and> timeouts w = [])"

definition session_inv :: "LiveScan \<Rightarrow> bool" where
  "session_inv w \<longleftrightarrow>
     isActive_prop w
     \<and> \<not> is_unmounted w
     \<and> 0 < nextTimeout w
     \<and> (isProcessingRef w \<longleftrightarrow> inferences w \<noteq> [])
     \<and> (\<forall>t \<in> set (timeouts w). requestRef w = Some (fst t) \<and> fst t \<noteq> 0)
     \<and> (if isStreaming_state w
        then \<not> getUserMedia_pending w \<and> length (mediaStreams w) = 1
             \<and> videoRef w = Some \<lparr>srcObject = Some 0\<rparr>
        else inferences w = [] \<and> timeouts w = [] \<and> mediaStreams w = []
             \<and> videoRef w = Some \<lparr>srcObject = None\<rparr>)"

text \<open>A result to evaluate the view on.\<close>

definition example_result :: "real \<Rightarrow> ClassificationResult" where
  "example_result c =
     \<lparr> category = PLASTIC, confidence = c, label = ''water bottle'',
       reasoning = ''Identified as a water bottle.'', disposalInstructions = ''Rinse and recycle.'' \<rparr>"

section \<open>Properties of the string primitives\<close>

lemma String_startsWith_iff: "String_startsWith s k \<longleftrightarrow> (\<exists>ss. s = k @ ss)"
  by (induction s k rule: String_startsWith.induct) auto

lemma String_includes_iff: "String_includes s k \<longleftrightarrow> (\<exists>ps ss. s = ps @ k @ ss)"
proof (induction s)
  case Nil
  then show ?case by auto
next
  case (Cons c cs)
  show ?case
  proof
    assume "String_includes (c # cs) k"
    then consider "String_startsWith (c # cs) k" | "String_includes cs k" by auto
    then show "\<exists>ps ss. c # cs = ps @ k @ ss"
    proof cases
      case 1
      then obtain ss where "c # cs = k @ ss" by (auto simp: String_startsWith_iff)
      then have "c # cs = [] @ k @ ss" by simp
      then show ?thesis by blast
    next
      case 2
      then obtain ps ss where "cs = ps @ k @ ss" using Cons.IH by auto
      then have "c # cs = (c # ps) @ k @ ss" by simp
      then show ?thesis by blast
    qed
  next
    assume "\<exists>ps ss. c # cs = ps @ k @ ss"
    then obtain ps ss where e: "c # cs = ps @ k @ ss" by blast
    show "String_includes (c # cs) k"
    proof (cases ps)
      case Nil
      with e have "String_startsWith (c # cs) k" by (auto simp: String_startsWith_iff)
      then show ?thesis by simp
    next
      case (Cons p ps')
      with e have "cs = ps' @ k @ ss" by simp
      then have "String_includes cs k" using Cons.IH by blast
      then show ?thesis by simp
    qed
  qed
qed

lemma ci_equal_iff: "ci_equal a b \<longleftrightarrow> toLowerCase a = toLowerCase b"
  unfolding ci_equal_def toLowerCase_def
  by (induction a arbitrary: b) (auto simp: list_all2_Cons1)

lemma includes_lower_iff:
  "String_includes (toLowerCase L) (toLowerCase k) \<longleftrightarrow> ci_substring k L"
proof
  assume "String_includes (toLowerCase L) (toLowerCase k)"
  then obtain ps ss where e: "toLowerCase L = ps @ toLowerCase k @ ss"
    by (auto simp: String_includes_iff)
  then obtain us vs where 1: "L = us @ vs" and "ps = toLowerCase us"
      and 2: "toLowerCase k @ ss = toLowerCase vs"
    unfolding toLowerCase_def by (auto simp: map_eq_append_conv)
  from 2 obtain mid ws where 3: "vs = mid @ ws" and 4: "toLowerCase k = toLowerCase mid"
    unfolding toLowerCase_def by (auto simp: append_eq_map_conv)
  from 1 3 4 show "ci_substring k L"
    unfolding ci_substring_def ci_equal_iff by blast
next
  assume "ci_substring k L"
  then obtain ps mid ss where "L = ps @ mid @ ss" "toLowerCase k = toLowerCase mid"
    unfolding ci_substring_def ci_equal_iff by blast
  then have "toLowerCase L = toLowerCase ps @ toLowerCase k @ toLowerCase ss"
    by (simp add: toLowerCase_def)
  then show "String_includes (toLowerCase L) (toLowerCase k)"
    unfolding String_includes_iff by blast
qed

lemma find_truthy_iff:
  assumes "[] \<notin> set ks"
  shows "truthy (List.find P ks) \<longleftrightarrow> (\<exists>k \<in> set ks. P k)"
  using assms by (induction ks) (auto simp: truthy_def)

lemma find_falsy:
  assumes "\<forall>k \<in> set ks. \<not> P k"
  shows "\<not> truthy (List.find P ks)"
  using assms by (induction ks) (auto simp: truthy_def)

lemma String_split_nonempty: "String_split sep s \<noteq> []"
  by (induction s) auto

lemma String_split_0: "String_split sep s ! 0 = takeWhile (\<lambda>x. x \<noteq> sep) s"
  by (induction s) (auto simp: hd_conv_nth String_split_nonempty)

section \<open>Properties of the category mapper\<close>

lemma rule_matches_code:
  "rule_matches m L \<longleftrightarrow>
     (\<exists>k \<in> set (keywords m). String_includes (toLowerCase L) (toLowerCase k))"
  by (simp add: rule_matches_def includes_lower_iff)

lemma mapLabelToWaste_for_hit:
  assumes "rule_matches m L" and "[] \<notin> set (keywords m)"
  shows "mapLabelToWaste_for K (toLowerCase L) L c (m # rest) =
           \<lparr> category = WasteMapping.category m, confidence = c, label = String_split CHR '','' L ! 0,
             reasoning = ''Identified as '' @ [CHR 0x27] @ String_split CHR '','' L ! 0 @ [CHR 0x27]
               @ '' which typically falls under '' @ WasteCategory_text K (WasteMapping.category m) @ ''.'',
             disposalInstructions = instructions m \<rparr>"
proof -
  have "truthy (List.find (\<lambda>keyword. String_includes (toLowerCase L) (toLowerCase keyword)) (keywords m))"
    using assms by (simp add: find_truthy_iff rule_matches_code)
  then show ?thesis by simp
qed

lemma mapLabelToWaste_for_miss:
  assumes "\<not> rule_matches m L"
  shows "mapLabelToWaste_for K (toLowerCase L) L c (m # rest) =
         mapLabelToWaste_for K (toLowerCase L) L c rest"
proof -
  have "\<not> truthy (List.find (\<lambda>keyword. String_includes (toLowerCase L) (toLowerCase keyword)) (keywords m))"
    using assms by (intro find_falsy) (simp add: rule_matches_code)
  then show ?thesis by simp
qed

lemma mapLabelToWaste_for_first:
  assumes "i < length tbl" and "rule_matches (tbl ! i) L" and "[] \<notin> set (keywords (tbl ! i))"
    and "\<forall>j<i. \<not> rule_matches (tbl ! j) L"
  shows "mapLabelToWaste_for K (toLowerCase L) L c tbl =
           \<lparr> category = WasteMapping.category (tbl ! i), confidence = c,
             label = String_split CHR '','' L ! 0,
             reasoning = ''Identified as '' @ [CHR 0x27] @ String_split CHR '','' L ! 0 @ [CHR 0x27]
               @ '' which typically falls under ''
               @ WasteCategory_text K (WasteMapping.category (tbl ! i)) @ ''.'',
             disposalInstructions = instructions (tbl ! i) \<rparr>"
  using assms
proof (induction tbl arbitrary: i)
  case Nil
  then show ?case by simp
next
  case (Cons m rest)
  show ?case
  proof (cases i)
    case 0
    with Cons.prems have "rule_matches m L" and "[] \<notin> set (keywords m)" by auto
    then show ?thesis unfolding 0 nth_Cons_0 by (rule mapLabelToWaste_for_hit)
  next
    case (Suc i')
    with Cons.prems have miss: "\<not> rule_matches m L" by auto
    from Suc Cons.prems have "i' < length rest" "rule_matches (rest ! i') L"
      "[] \<notin> set (keywords (rest ! i'))" by auto
    moreover from Suc Cons.prems have "\<forall>j<i'. \<not> rule_matches (rest ! j) L" by auto
    ultimately show ?thesis
      unfolding mapLabelToWaste_for_miss [OF miss] Suc nth_Cons_Suc by (rule Cons.IH)
  qed
qed

lemma mapLabelToWaste_for_none:
  assumes "\<forall>m \<in> set tbl. \<not> rule_matches m L"
  shows "mapLabelToWaste_for K (toLowerCase L) L c tbl = getUnknownResult K (Some L) (Some c)"
  using assms
  by (induction tbl) (simp_all add: mapLabelToWaste_for_miss del: mapLabelToWaste_for.simps(2))

lemma mapLabelToWaste_for_confidence:
  "confidence (mapLabelToWaste_for K lowerLabel L c tbl) = c"
  by (induction tbl) (simp_all add: getUnknownResult_def Let_def)

lemma mapLabelToWaste_for_label:
  "label (mapLabelToWaste_for K lowerLabel L c tbl) = first_alias L"
  by (induction tbl) (simp_all add: getUnknownResult_def Let_def String_split_0 first_alias_def)

text \<open>
  Claim C1. For every label \<open>L\<close> and confidence \<open>c\<close>, \<open>mapLabelToWaste\<close> lowercases the
  label and scans the rule table in table order: when row \<open>i\<close> is the first row one of whose
  keywords is a case-insensitive substring of \<open>L\<close>, the result carries the category and,
  verbatim, the disposal instructions of row \<open>i\<close>. No later row has any influence on the
  result (no scoring, no best match): replacing the rows after \<open>i\<close> by any rows \<open>later\<close>
  leaves the result unchanged. The rule table is a parameter (its source file is not at
  hand); the row that wins is taken to list no empty keyword, the empty string being
  falsy in the test \<^verbatim>\<open>if (match)\<close>.
\<close>

theorem mapLabelToWaste_first_match:
  assumes "i < length (WASTE_MAPPINGS K)"
    and "rule_matches (WASTE_MAPPINGS K ! i) L"
    and "[] \<notin> set (keywords (WASTE_MAPPINGS K ! i))"
    and "\<forall>j<i. \<not> rule_matches (WASTE_MAPPINGS K ! j) L"
  shows "category (mapLabelToWaste K L c) = WasteMapping.category (WASTE_MAPPINGS K ! i)
       \<and> disposalInstructions (mapLabelToWaste K L c) = instructions (WASTE_MAPPINGS K ! i)
       \<and> (\<forall>later. mapLabelToWaste (K\<lparr>WASTE_MAPPINGS := take (Suc i) (WASTE_MAPPINGS K) @ later\<rparr>) L c
             = mapLabelToWaste K L c)"
proof -
  let ?tbl = "WASTE_MAPPINGS K"
  note hit = mapLabelToWaste_for_first [OF assms, of K c]
  have later: "mapLabelToWaste (K\<lparr>WASTE_MAPPINGS := take (Suc i) ?tbl @ later\<rparr>) L c
             = mapLabelToWaste K L c" for later
  proof -
    let ?K' = "K\<lparr>WASTE_MAPPINGS := take (Suc i) ?tbl @ later\<rparr>"
    let ?tbl' = "take (Suc i) ?tbl @ later"
    have n: "?tbl' ! j = ?tbl ! j" if "j \<le> i" for j
      using assms(1) that by (simp add: nth_append)
    have "i < length ?tbl'" using assms(1) by simp
    moreover have "rule_matches (?tbl' ! i) L" using assms(2) n by simp
    moreover have "[] \<notin> set (keywords (?tbl' ! i))" using assms(3) n by simp
    moreover have "\<forall>j<i. \<not> rule_matches (?tbl' ! j) L" using assms(4) n by simp
    ultimately have "mapLabelToWaste_for ?K' (toLowerCase L) L c ?tbl' =
           \<lparr> category = WasteMapping.category (?tbl' ! i), confidence = c,
             label = String_split CHR '','' L ! 0,
             reasoning = ''Identified as '' @ [CHR 0x27] @ String_split CHR '','' L ! 0 @ [CHR 0x27]
               @ '' which typically falls under ''
               @ WasteCategory_text ?K' (WasteMapping.category (?tbl' ! i)) @ ''.'',
             disposalInstructions = instructions (?tbl' ! i) \<rparr>"
      by (rule mapLabelToWaste_for_first)
    then show ?thesis
      using hit n [of i] by (simp add: mapLabelToWaste_def)
  qed
  from hit later show ?thesis by (simp add: mapLabelToWaste_def)
qed

theorem mapLabelToWaste_first_match_witness:
  "category (mapLabelToWaste example_constants ''Water BOTTLE cap, can'' 0.87) = PLASTIC
   \<and> disposalInstructions (mapLabelToWaste example_constants ''Water BOTTLE cap, can'' 0.87)
       = ''Rinse and recycle.''
   \<and> rule_matches (WASTE_MAPPINGS example_constants ! 2) ''Water BOTTLE cap, can''"
proof -
  let ?L = "''Water BOTTLE cap, can''"
  have 1: "(1::nat) < length (WASTE_MAPPINGS example_constants)"
    by (simp add: example_constants_def)
  have 2: "rule_matches (WASTE_MAPPINGS example_constants ! 1) ?L"
    by (simp add: rule_matches_code example_constants_def toLowerCase_def toLowerCase_char_def)
  have 3: "[] \<notin> set (keywords (WASTE_MAPPINGS example_constants ! 1))"
    by (simp add: example_constants_def)
  have 4: "\<forall>j<1. \<not> rule_matches (WASTE_MAPPINGS example_constants ! j) ?L"
    by (simp add: rule_matches_code example_constants_def toLowerCase_def toLowerCase_char_def)
  have 5: "rule_matches (WASTE_MAPPINGS example_constants ! 2) ?L"
    by (simp add: rule_matches_code example_constants_def toLowerCase_def toLowerCase_char_def)
  from mapLabelToWaste_first_match [OF 1 2 3 4, of "0.87"] 5 show ?thesis
    by (simp add: example_constants_def)
qed

text \<open>
  Why the winning row must not list the empty keyword before its match: \<^verbatim>\<open>find\<close> returns the
  first keyword the label includes, every label includes the empty string, and the empty
  string is falsy, so such a row is passed over.
\<close>

lemma mapLabelToWaste_empty_keyword:
  "mapLabelToWaste
     (example_constants\<lparr>WASTE_MAPPINGS :=
        [\<lparr> keywords = ['''', ''can''], WasteMapping.category = METAL, instructions = ''Metal bin.'' \<rparr>]\<rparr>)
     ''tin can'' c
   = getUnknownResult example_constants (Some ''tin can'') (Some c)"
  by (simp add: mapLabelToWaste_def toLowerCase_def truthy_def getUnknownResult_def)

text \<open>
  Claim C2. When no row of the rule table has a keyword that is a case-insensitive
  substring of the label \<open>L\<close>, \<open>mapLabelToWaste K L c\<close> is the result with category
  \<open>UNKNOWN\<close>, the fixed text \<open>UNKNOWN_INSTRUCTIONS\<close> and the reasoning string that says the
  label could not be matched to a waste stream with high confidence. Matched or not,
  the confidence of the result is \<open>c\<close>.
\<close>

theorem mapLabelToWaste_no_match:
  "((\<forall>m \<in> set (WASTE_MAPPINGS K). \<not> rule_matches m L) \<longrightarrow>
      mapLabelToWaste K L c =
        \<lparr> category = UNKNOWN, confidence = c, label = first_alias L,
          reasoning = ''The system detected '' @ [CHR 0x27] @ first_alias L @ [CHR 0x27]
            @ '' but could not match it to a specific waste stream with high confidence.'',
          disposalInstructions = UNKNOWN_INSTRUCTIONS K \<rparr>)
   \<and> confidence (mapLabelToWaste K L c) = c"
proof -
  have "mapLabelToWaste K L c = getUnknownResult K (Some L) (Some c)"
    if "\<forall>m \<in> set (WASTE_MAPPINGS K). \<not> rule_matches m L"
    unfolding mapLabelToWaste_def Let_def using that by (rule mapLabelToWaste_for_none)
  moreover have "confidence (mapLabelToWaste K L c) = c"
    by (simp add: mapLabelToWaste_def mapLabelToWaste_for_confidence)
  ultimately show ?thesis
    by (simp add: getUnknownResult_def String_split_0 first_alias_def)
qed

theorem mapLabelToWaste_no_match_witness:
  "\<not> rule_matches (WASTE_MAPPINGS example_constants ! 0) ''xyz-nonsense-item, thing''
   \<and> \<not> rule_matches (WASTE_MAPPINGS example_constants ! 1) ''xyz-nonsense-item, thing''
   \<and> \<not> rule_matches (WASTE_MAPPINGS example_constants ! 2) ''xyz-nonsense-item, thing''
   \<and> length (WASTE_MAPPINGS example_constants) = 3
   \<and> mapLabelToWaste example_constants ''xyz-nonsense-item, thing'' 0.33 =
        \<lparr> category = UNKNOWN, confidence = 0.33, label = ''xyz-nonsense-item'',
          reasoning = ''The system detected '' @ [CHR 0x27] @ ''xyz-nonsense-item'' @ [CHR 0x27]
            @ '' but could not match it to a specific waste stream with high confidence.'',
          disposalInstructions = ''Ask your local waste authority.'' \<rparr>
   \<and> confidence (mapLabelToWaste example_constants ''Water BOTTLE cap, can'' 0.87) = 0.87"
proof -
  have 1: "\<forall>m \<in> set (WASTE_MAPPINGS example_constants). \<not> rule_matches m ''xyz-nonsense-item, thing''"
    by (simp add: rule_matches_code example_constants_def toLowerCase_def toLowerCase_char_def)
  from 1 mapLabelToWaste_no_match [of example_constants "''xyz-nonsense-item, thing''" "0.33"]
    mapLabelToWaste_no_match [of example_constants "''Water BOTTLE cap, can''" "0.87"]
  show ?thesis
    by (simp add: first_alias_def example_constants_def)
qed

text \<open>
  Claim C9. The \<open>label\<close> field of every result of \<open>mapLabelToWaste\<close> and of
  \<open>getUnknownResult\<close> is the part of the classifier label before its first comma
  (\<^verbatim>\<open>L.split(',')[0]\<close>): a prefix of \<open>L\<close> without comma, followed in \<open>L\<close> by nothing or by a
  comma, and different from \<open>L\<close> whenever \<open>L\<close> has a comma. The reasoning string embeds
  that same first alias, between quotes, in both templates.
\<close>

theorem first_alias_only:
  "label (mapLabelToWaste K L c) = first_alias L
   \<and> label (getUnknownResult K (Some L) c') = first_alias L
   \<and> (CHR '','' \<in> set L \<longrightarrow> first_alias L \<noteq> L)
   \<and> CHR '','' \<notin> set (first_alias L)
   \<and> (\<exists>rest. L = first_alias L @ rest \<and> (rest = [] \<or> hd rest = CHR '',''))
   \<and> reasoning (getUnknownResult K (Some L) c') =
       ''The system detected '' @ [CHR 0x27] @ first_alias L @ [CHR 0x27]
         @ '' but could not match it to a specific waste stream with high confidence.''
   \<and> (reasoning (mapLabelToWaste K L c) = reasoning (getUnknownResult K (Some L) (Some c))
      \<or> (\<exists>m \<in> set (WASTE_MAPPINGS K). reasoning (mapLabelToWaste K L c) =
           ''Identified as '' @ [CHR 0x27] @ first_alias L @ [CHR 0x27]
             @ '' which typically falls under '' @ WasteCategory_text K (WasteMapping.category m) @ ''.''))"
proof -
  have a: "label (mapLabelToWaste K L c) = first_alias L"
    by (simp add: mapLabelToWaste_def mapLabelToWaste_for_label)
  have b: "label (getUnknownResult K (Some L) c') = first_alias L"
    by (simp add: getUnknownResult_def Let_def String_split_0 first_alias_def)
  have c: "first_alias L \<noteq> L" if "CHR '','' \<in> set L"
  proof
    assume "first_alias L = L"
    then have "\<forall>x \<in> set L. x \<noteq> CHR '',''"
      unfolding first_alias_def by (simp add: takeWhile_eq_all_conv)
    with that show False by blast
  qed
  have d: "CHR '','' \<notin> set (first_alias L)"
    unfolding first_alias_def by (auto dest: set_takeWhileD)
  have e: "\<exists>rest. L = first_alias L @ rest \<and> (rest = [] \<or> hd rest = CHR '','')"
  proof (intro exI conjI)
    show "L = first_alias L @ dropWhile (\<lambda>x. x \<noteq> CHR '','') L"
      by (simp add: first_alias_def)
    show "dropWhile (\<lambda>x. x \<noteq> CHR '','') L = [] \<or> hd (dropWhile (\<lambda>x. x \<noteq> CHR '','') L) = CHR '',''"
      using hd_dropWhile [of "\<lambda>x. x \<noteq> CHR '',''" L] by blast
  qed
  have f: "reasoning (getUnknownResult K (Some L) c') =
       ''The system detected '' @ [CHR 0x27] @ first_alias L @ [CHR 0x27]
         @ '' but could not match it to a specific waste stream with high confidence.''"
    by (simp add: getUnknownResult_def Let_def String_split_0 first_alias_def)
  have g: "reasoning (mapLabelToWaste_for K lowerLabel L c tbl) = reasoning (getUnknownResult K (Some L) (Some c))
      \<or> (\<exists>m \<in> set tbl. reasoning (mapLabelToWaste_for K lowerLabel L c tbl) =
           ''Identified as '' @ [CHR 0x27] @ first_alias L @ [CHR 0x27]
             @ '' which typically falls under '' @ WasteCategory_text K (WasteMapping.category m) @ ''.'')"
    for lowerLabel tbl
    by (induction tbl) (auto simp: Let_def String_split_0 first_alias_def)
  from a b c d e f g [of "toLowerCase L" "WASTE_MAPPINGS K"] show ?thesis
    unfolding mapLabelToWaste_def Let_def by blast
qed

theorem first_alias_only_witness:
  "CHR '','' \<in> set ''Banana, plantain''
   \<and> label (mapLabelToWaste example_constants ''Banana, plantain'' 0.91) = ''Banana''
   \<and> label (getUnknownResult example_constants (Some ''Banana, plantain'') None) = ''Banana''
   \<and> first_alias ''Banana, plantain'' \<noteq> ''Banana, plantain''"
proof -
  note t = first_alias_only [of example_constants "''Banana, plantain''" "0.91" None]
  have fa: "first_alias ''Banana, plantain'' = ''Banana''"
    by (simp add: first_alias_def)
  have m: "CHR '','' \<in> set ''Banana, plantain''"
    by simp
  from t [THEN conjunct1] fa
  have 1: "label (mapLabelToWaste example_constants ''Banana, plantain'' 0.91) = ''Banana''"
    by (rule trans)
  from t [THEN conjunct2, THEN conjunct1] fa
  have 2: "label (getUnknownResult example_constants (Some ''Banana, plantain'') None) = ''Banana''"
    by (rule trans)
  from t [THEN conjunct2, THEN conjunct2, THEN conjunct1] m
  have 3: "first_alias ''Banana, plantain'' \<noteq> ''Banana, plantain''"
    by (rule mp)
  from m 1 2 3 show ?thesis by (intro conjI)
qed

section \<open>Properties of the asynchronous methods\<close>

lemma loadModel_in_flight:
  assumes "model this = None" and "isModelLoading this"
  shows "loadModel this = (this, Fulfilled ())"
  using assms by (simp add: loadModel_def)

lemma loadModel_starts:
  assumes "model this = None" and "\<not> isModelLoading this"
  shows "loadModel this = (this\<lparr>isModelLoading := True\<rparr>, Suspended await_tf_ready)"
  using assms by (simp add: loadModel_def)

lemma loadModel_calls_in_flight:
  assumes "model this = None" and "isModelLoading this"
  shows "loadModel_calls n this = (this, replicate n (Fulfilled ()))"
  using assms by (induction n) (simp_all add: loadModel_in_flight)

text \<open>
  Claim C3, as stated, fails. The claim: of the concurrent callers of \<open>loadModel\<close> issued
  while the model is not loaded, every caller waits on the one load in flight and settles
  with its outcome, and no call made during the load returns before the load completes.
  On the object that is neither loaded nor loading, a first call starts the load and is
  suspended; a second call, made while that load is in flight, is fulfilled at once, the
  model still being \<^verbatim>\<open>null\<close>; and when the load then fails, the first call is rejected,
  an outcome the second caller never sees.
\<close>

theorem loadModel_returns_during_load:
  "loadModel \<lparr>model = None, isModelLoading = False\<rparr>
     = (\<lparr>model = None, isModelLoading = True\<rparr>, Suspended await_tf_ready)
   \<and> loadModel \<lparr>model = None, isModelLoading = True\<rparr>
     = (\<lparr>model = None, isModelLoading = True\<rparr>, Fulfilled ())
   \<and> loadModel_resume await_tf_ready (tf_ready rejects) \<lparr>model = None, isModelLoading = True\<rparr>
     = Some (\<lparr>model = None, isModelLoading = False\<rparr>,
         Rejected (Error ''Failed to initialize local AI engine. Check your internet for the initial download.''))"
  by (simp add: loadModel_def loadModel_catch_def)

text \<open>
  Claim C3, amended. Of \<open>n + 1\<close> calls of \<open>loadModel\<close> issued one after the other while the
  model is neither loaded nor loading, exactly the first starts a load attempt and is
  suspended on it; every later call returns at once, its promise fulfilled, without
  starting a load and without waiting for the one in flight. The first caller alone
  settles with the outcome of the attempt: fulfilled once \<^verbatim>\<open>mobilenet.load\<close> succeeds,
  rejected with the load error when either awaited step fails.
\<close>

theorem loadModel_single_attempt:
  assumes "model this = None" and "\<not> isModelLoading this"
  shows "loadModel_calls (Suc n) this =
           (this\<lparr>isModelLoading := True\<rparr>, Suspended await_tf_ready # replicate n (Fulfilled ()))
       \<and> loadModel_resume await_tf_ready (tf_ready (resolves ())) (this\<lparr>isModelLoading := True\<rparr>)
           = Some (this\<lparr>isModelLoading := True\<rparr>, Suspended await_mobilenet_load)
       \<and> (\<forall>m. loadModel_resume await_mobilenet_load (mobilenet_load (resolves m)) (this\<lparr>isModelLoading := True\<rparr>)
           = Some (this\<lparr>model := Some m, isModelLoading := False\<rparr>, Fulfilled ()))
       \<and> loadModel_resume await_tf_ready (tf_ready rejects) (this\<lparr>isModelLoading := True\<rparr>)
           = Some (this\<lparr>isModelLoading := False\<rparr>,
               Rejected (Error ''Failed to initialize local AI engine. Check your internet for the initial download.''))
       \<and> loadModel_resume await_mobilenet_load (mobilenet_load rejects) (this\<lparr>isModelLoading := True\<rparr>)
           = Some (this\<lparr>isModelLoading := False\<rparr>,
               Rejected (Error ''Failed to initialize local AI engine. Check your internet for the initial download.''))"
proof -
  have "loadModel_calls n (this\<lparr>isModelLoading := True\<rparr>)
          = (this\<lparr>isModelLoading := True\<rparr>, replicate n (Fulfilled ()))"
    using assms(1) by (intro loadModel_calls_in_flight) simp_all
  with assms show ?thesis
    by (simp add: loadModel_starts loadModel_catch_def)
qed

theorem loadModel_single_attempt_witness:
  "loadModel_calls 3 \<lparr>model = None, isModelLoading = False\<rparr> =
     (\<lparr>model = None, isModelLoading = True\<rparr>,
      [Suspended await_tf_ready, Fulfilled (), Fulfilled ()])"
proof -
  have "model \<lparr>model = None, isModelLoading = False\<rparr> = None"
    and "\<not> isModelLoading \<lparr>model = None, isModelLoading = False\<rparr>" by simp_all
  from loadModel_single_attempt [OF this, of 2, THEN conjunct1] show ?thesis
    by (simp add: numeral_3_eq_3 numeral_2_eq_2)
qed

text \<open>
  Claim C7. When a load attempt fails, at \<^verbatim>\<open>tf.ready()\<close> or at \<^verbatim>\<open>mobilenet.load(...)\<close>,
  \<open>loadModel\<close> is rejected with an error that carries the user-facing message, and the
  failure is not cached: the object is left not loading, with no model, so the next call
  of \<open>loadModel\<close> starts a fresh attempt, which succeeds when both awaited steps do.
\<close>

theorem loadModel_failure_not_cached:
  assumes "model this = None"
  shows "loadModel_resume await_tf_ready (tf_ready rejects) this = Some (loadModel_catch this)
       \<and> loadModel_resume await_mobilenet_load (mobilenet_load rejects) this = Some (loadModel_catch this)
       \<and> snd (loadModel_catch this) =
           Rejected (Error ''Failed to initialize local AI engine. Check your internet for the initial download.'')
       \<and> model (fst (loadModel_catch this)) = None
       \<and> \<not> isModelLoading (fst (loadModel_catch this))
       \<and> loadModel (fst (loadModel_catch this)) = (this\<lparr>isModelLoading := True\<rparr>, Suspended await_tf_ready)
       \<and> loadModel_resume await_tf_ready (tf_ready (resolves ())) (this\<lparr>isModelLoading := True\<rparr>)
           = Some (this\<lparr>isModelLoading := True\<rparr>, Suspended await_mobilenet_load)
       \<and> (\<forall>m. loadModel_resume await_mobilenet_load (mobilenet_load (resolves m)) (this\<lparr>isModelLoading := True\<rparr>)
           = Some (this\<lparr>model := Some m, isModelLoading := False\<rparr>, Fulfilled ()))"
  using assms by (simp add: loadModel_catch_def loadModel_def)

theorem loadModel_failure_not_cached_witness:
  "loadModel \<lparr>model = None, isModelLoading = False\<rparr> = (\<lparr>model = None, isModelLoading = True\<rparr>, Suspended await_tf_ready)
   \<and> loadModel_resume await_tf_ready (tf_ready rejects) \<lparr>model = None, isModelLoading = True\<rparr>
       = Some (\<lparr>model = None, isModelLoading = False\<rparr>,
           Rejected (Error ''Failed to initialize local AI engine. Check your internet for the initial download.''))
   \<and> loadModel_resume await_mobilenet_load (mobilenet_load (resolves (MobileNet 2))) \<lparr>model = None, isModelLoading = True\<rparr>
       = Some (\<lparr>model = Some (MobileNet 2), isModelLoading = False\<rparr>, Fulfilled ())"
proof -
  have "model \<lparr>model = None, isModelLoading = True\<rparr> = None" by simp
  from loadModel_failure_not_cached [OF this] show ?thesis
    by (simp add: loadModel_catch_def)
qed

text \<open>
  Claim C10. When \<open>classifyElement\<close> is called while the model is not loaded and a load is
  in flight, its inner call of \<open>loadModel\<close> returns at once without waiting for that load,
  and \<open>classifyElement\<close> is rejected with \<^verbatim>\<open>Model initialization failed\<close>, the object being
  left as it was: the load in flight can still succeed afterwards and set the model.
\<close>

theorem classifyElement_during_load:
  assumes "model this = None" and "isModelLoading this"
  shows "loadModel this = (this, Fulfilled ())
       \<and> classifyElement this = (this, Rejected (Error ''Model initialization failed''))
       \<and> (\<forall>m. loadModel_resume await_mobilenet_load (mobilenet_load (resolves m)) this
             = Some (this\<lparr>model := Some m, isModelLoading := False\<rparr>, Fulfilled ()))"
  using assms by (simp add: loadModel_def classifyElement_def classifyElement_checked_def)

theorem classifyElement_during_load_witness:
  "classifyElement \<lparr>model = None, isModelLoading = True\<rparr>
     = (\<lparr>model = None, isModelLoading = True\<rparr>, Rejected (Error ''Model initialization failed''))
   \<and> loadModel_resume await_mobilenet_load (mobilenet_load (resolves (MobileNet 1)))
        \<lparr>model = None, isModelLoading = True\<rparr>
     = Some (\<lparr>model = Some (MobileNet 1), isModelLoading = False\<rparr>, Fulfilled ())"
proof -
  have "model \<lparr>model = None, isModelLoading = True\<rparr> = None"
    and "isModelLoading \<lparr>model = None, isModelLoading = True\<rparr>" by simp_all
  from classifyElement_during_load [OF this] show ?thesis by simp
qed

lemma classify_onload_released:
  assumes "classify_onload url p r = (p', a)" and "\<forall>pc. a \<noteq> Suspended pc"
  shows "url \<notin> set (objectURLs p')"
  using assms by (cases "(url, p, r)" rule: classify_onload.cases) (auto simp: URL_revokeObjectURL_def)

lemma classify_onload_keeps_url:
  assumes "classify_onload url p r = (p', Suspended pc')"
  shows "imageUrl pc' = url"
  using assms by (cases "(url, p, r)" rule: classify_onload.cases) auto

lemma classify_resume_released:
  assumes "classify_resume K pc ev p = Some (p', a)" and "\<forall>pc'. a \<noteq> Suspended pc'"
  shows "imageUrl pc \<notin> set (objectURLs p')"
proof (cases pc)
  case (await_img url)
  show ?thesis
  proof (cases ev)
    case img_onload
    with await_img assms(1)
    have "classify_onload url p (classifyElement (wasteClassifier p)) = (p', a)" by simp
    with assms(2) await_img show ?thesis by (simp add: classify_onload_released)
  next
    case img_onerror
    with await_img assms(1) show ?thesis by (auto simp: URL_revokeObjectURL_def)
  qed (use await_img assms(1) in simp_all)
next
  case (in_classifyElement url cpc)
  with assms(1) obtain r where "classify_onload url p r = (p', a)"
    by (auto split: option.splits)
  with assms(2) in_classifyElement show ?thesis by (simp add: classify_onload_released)
qed

lemma classify_resume_keeps_url:
  assumes "classify_resume K pc ev p = Some (p', Suspended pc')"
  shows "imageUrl pc' = imageUrl pc"
proof (cases pc)
  case (await_img url)
  with assms show ?thesis
    by (cases ev) (auto simp: classify_onload_keeps_url)
next
  case (in_classifyElement url cpc)
  with assms show ?thesis
    by (auto split: option.splits simp: classify_onload_keeps_url)
qed

lemma classify_resume_store:
  assumes "classify_resume K pc ev q = Some (q', a)"
  shows "objectURLs q' =
     (case a of Suspended pc' \<Rightarrow> objectURLs q | _ \<Rightarrow> removeAll (imageUrl pc) (objectURLs q))"
proof -
  have onload: "objectURLs q' =
     (case a of Suspended pc' \<Rightarrow> objectURLs q | _ \<Rightarrow> removeAll url (objectURLs q))"
    if "classify_onload url q r = (q', a)" for url r
  proof (cases "(url, q, r)" rule: classify_onload.cases)
    case (1 u p' this' pc')
    with that show ?thesis by auto
  next
    case (2 u p' this' res)
    with that show ?thesis by (auto simp: URL_revokeObjectURL_def)
  next
    case (3 u p' this' err)
    with that show ?thesis by (auto simp: URL_revokeObjectURL_def)
  qed
  show ?thesis
  proof (cases pc)
    case (await_img url)
    show ?thesis
    proof (cases ev)
      case img_onload
      with await_img assms
      have "classify_onload url q (classifyElement (wasteClassifier q)) = (q', a)" by simp
      then show ?thesis unfolding await_img imageUrl.simps by (rule onload)
    next
      case img_onerror
      with await_img assms show ?thesis by (auto simp: URL_revokeObjectURL_def)
    qed (use await_img assms in simp_all)
  next
    case (in_classifyElement url cpc)
    with assms obtain r where "classify_onload url q r = (q', a)"
      by (auto split: option.splits)
    then show ?thesis unfolding in_classifyElement imageUrl.simps by (rule onload)
  qed
qed

text \<open>
  Claim C8. \<open>classify\<close> creates one object URL, and that URL stays the one of the call,
  alive in the store, for as long as the call is suspended. Every step that settles the
  call revokes it, whatever the page looked like when the step ran:
  \<^item> the classification succeeds: the URL is revoked and the call is fulfilled with the
    result;
  \<^item> the inference fails: the URL is revoked and the call is rejected with
    \<^verbatim>\<open>Neural analysis failed\<close>;
  \<^item> the model is missing while a load is in flight, or its load fails: the URL is revoked
    and the call is rejected with the error of \<open>classifyElement\<close>;
  \<^item> the image cannot be decoded (\<^verbatim>\<open>onerror\<close>): the URL is revoked and the call is rejected
    with \<^verbatim>\<open>Failed to process image file\<close>.
  In general, a step that leaves the call suspended leaves the store as it is, and a
  step that settles the call, fulfilled or rejected, leaves the store without the URL of
  the call and otherwise unchanged.
\<close>

theorem classify_releases_url:
  "classify p = (p\<lparr>objectURLs := nextURL p # objectURLs p, nextURL := Suc (nextURL p)\<rparr>,
                 Suspended (await_img (nextURL p)))
   \<and> (\<forall>pc ev q q' pc'. classify_resume K pc ev q = Some (q', Suspended pc') \<longrightarrow>
          imageUrl pc' = imageUrl pc \<and> objectURLs q' = objectURLs q)
   \<and> (\<forall>pc ev q q' result. classify_resume K pc ev q = Some (q', Fulfilled result) \<longrightarrow>
          imageUrl pc \<notin> set (objectURLs q')
          \<and> objectURLs q' = removeAll (imageUrl pc) (objectURLs q))
   \<and> (\<forall>pc ev q q' err. classify_resume K pc ev q = Some (q', Rejected err) \<longrightarrow>
          imageUrl pc \<notin> set (objectURLs q')
          \<and> objectURLs q' = removeAll (imageUrl pc) (objectURLs q))
   \<and> (\<forall>url q. classify_resume K (await_img url) img_onerror q =
          Some (URL_revokeObjectURL url q, Rejected (Error ''Failed to process image file''))
          \<and> url \<notin> set (objectURLs (URL_revokeObjectURL url q)))
   \<and> (\<forall>url predictions q.
          classify_resume K (in_classifyElement url await_model_classify)
              (model_classify (resolves predictions)) q =
            Some (URL_revokeObjectURL url q,
                  Fulfilled (case predictions of
                               None \<Rightarrow> getUnknownResult K None None
                             | Some [] \<Rightarrow> getUnknownResult K None None
                             | Some (topResult # _) \<Rightarrow>
                                 mapLabelToWaste K (className topResult) (probability topResult))))
   \<and> (\<forall>url q.
          classify_resume K (in_classifyElement url await_model_classify) (model_classify rejects) q =
            Some (URL_revokeObjectURL url q, Rejected (Error ''Neural analysis failed'')))
   \<and> (\<forall>url q. model (wasteClassifier q) \<noteq> None \<longrightarrow>
          classify_resume K (await_img url) img_onload q =
            Some (q, Suspended (in_classifyElement url await_model_classify)))
   \<and> (\<forall>url q. model (wasteClassifier q) = None \<and> isModelLoading (wasteClassifier q) \<longrightarrow>
          classify_resume K (await_img url) img_onload q =
            Some (URL_revokeObjectURL url q, Rejected (Error ''Model initialization failed'')))
   \<and> (\<forall>url q.
          classify_resume K (in_classifyElement url (in_loadModel await_mobilenet_load))
              (mobilenet_load rejects) q =
            Some (URL_revokeObjectURL url (q\<lparr>wasteClassifier := (wasteClassifier q)\<lparr>isModelLoading := False\<rparr>\<rparr>),
                  Rejected (Error ''Failed to initialize local AI engine. Check your internet for the initial download.'')))"
proof -
  have 1: "classify p = (p\<lparr>objectURLs := nextURL p # objectURLs p, nextURL := Suc (nextURL p)\<rparr>,
                 Suspended (await_img (nextURL p)))"
    by (simp add: classify_def URL_createObjectURL_def)
  have 2: "imageUrl pc' = imageUrl pc \<and> objectURLs q' = objectURLs q"
    if "classify_resume K pc ev q = Some (q', Suspended pc')" for pc ev q q' pc'
    using classify_resume_keeps_url [OF that] classify_resume_store [OF that] by simp
  have 3: "imageUrl pc \<notin> set (objectURLs q') \<and> objectURLs q' = removeAll (imageUrl pc) (objectURLs q)"
    if "classify_resume K pc ev q = Some (q', Fulfilled result)" for pc ev q q' result
    using classify_resume_store [OF that] by simp
  have 4: "imageUrl pc \<notin> set (objectURLs q') \<and> objectURLs q' = removeAll (imageUrl pc) (objectURLs q)"
    if "classify_resume K pc ev q = Some (q', Rejected err)" for pc ev q q' err
    using classify_resume_store [OF that] by simp
  have 5: "classify_resume K (await_img url) img_onerror q =
          Some (URL_revokeObjectURL url q, Rejected (Error ''Failed to process image file''))
          \<and> url \<notin> set (objectURLs (URL_revokeObjectURL url q))" for url q
    by (simp add: URL_revokeObjectURL_def)
  have 6: "classify_resume K (in_classifyElement url await_model_classify)
              (model_classify (resolves predictions)) q =
            Some (URL_revokeObjectURL url q,
                  Fulfilled (case predictions of
                               None \<Rightarrow> getUnknownResult K None None
                             | Some [] \<Rightarrow> getUnknownResult K None None
                             | Some (topResult # _) \<Rightarrow>
                                 mapLabelToWaste K (className topResult) (probability topResult)))"
    for url predictions q
    by simp
  have 7: "classify_resume K (in_classifyElement url await_model_classify) (model_classify rejects) q =
            Some (URL_revokeObjectURL url q, Rejected (Error ''Neural analysis failed''))" for url q
    by simp
  have 8: "classify_resume K (await_img url) img_onload q =
            Some (q, Suspended (in_classifyElement url await_model_classify))"
    if "model (wasteClassifier q) \<noteq> None" for url q
    using that by (auto simp: classifyElement_def classifyElement_checked_def)
  have 9: "classify_resume K (await_img url) img_onload q =
            Some (URL_revokeObjectURL url q, Rejected (Error ''Model initialization failed''))"
    if "model (wasteClassifier q) = None \<and> isModelLoading (wasteClassifier q)" for url q
    using that by (simp add: classifyElement_def classifyElement_checked_def loadModel_def)
  have 10: "classify_resume K (in_classifyElement url (in_loadModel await_mobilenet_load))
              (mobilenet_load rejects) q =
            Some (URL_revokeObjectURL url (q\<lparr>wasteClassifier := (wasteClassifier q)\<lparr>isModelLoading := False\<rparr>\<rparr>),
                  Rejected (Error ''Failed to initialize local AI engine. Check your internet for the initial download.''))"
    for url q
    by (simp add: loadModel_catch_def)
  from 2 have c2: "\<forall>pc ev q q' pc'. classify_resume K pc ev q = Some (q', Suspended pc') \<longrightarrow>
          imageUrl pc' = imageUrl pc \<and> objectURLs q' = objectURLs q"
    by (intro allI impI)
  from 3 have c3: "\<forall>pc ev q q' result. classify_resume K pc ev q = Some (q', Fulfilled result) \<longrightarrow>
          imageUrl pc \<notin> set (objectURLs q')
          \<and> objectURLs q' = removeAll (imageUrl pc) (objectURLs q)"
    by (intro allI impI)
  from 4 have c4: "\<forall>pc ev q q' err. classify_resume K pc ev q = Some (q', Rejected err) \<longrightarrow>
          imageUrl pc \<notin> set (objectURLs q')
          \<and> objectURLs q' = removeAll (imageUrl pc) (objectURLs q)"
    by (intro allI impI)
  note c5 = 5 [THEN allI, THEN allI]
  note c6 = 6 [THEN allI, THEN allI, THEN allI]
  note c7 = 7 [THEN allI, THEN allI]
  from 8 have c8: "\<forall>url q. model (wasteClassifier q) \<noteq> None \<longrightarrow>
          classify_resume K (await_img url) img_onload q =
            Some (q, Suspended (in_classifyElement url await_model_classify))"
    by (intro allI impI)
  from 9 have c9: "\<forall>url q. model (wasteClassifier q) = None \<and> isModelLoading (wasteClassifier q) \<longrightarrow>
          classify_resume K (await_img url) img_onload q =
            Some (URL_revokeObjectURL url q, Rejected (Error ''Model initialization failed''))"
    by (intro allI impI)
  note c10 = 10 [THEN allI, THEN allI]
  show ?thesis
    by (intro conjI 1 c2 c3 c4 c5 c6 c7 c8 c9 c10)
qed

theorem classify_releases_url_witness:
  "classify example_page = (example_page\<lparr>objectURLs := [7, 3], nextURL := 8\<rparr>, Suspended (await_img 7))
   \<and> classify_resume example_constants (await_img 7) img_onload (example_page\<lparr>objectURLs := [7, 3], nextURL := 8\<rparr>)
       = Some (example_page\<lparr>objectURLs := [7, 3], nextURL := 8\<rparr>, Suspended (in_classifyElement 7 await_model_classify))
   \<and> classify_resume example_constants (in_classifyElement 7 await_model_classify)
         (model_classify (resolves (Some [\<lparr>className = ''banana'', probability = 0.91\<rparr>])))
         (example_page\<lparr>objectURLs := [7, 3], nextURL := 8\<rparr>)
       = Some (example_page\<lparr>objectURLs := [3], nextURL := 8\<rparr>,
               Fulfilled (mapLabelToWaste example_constants ''banana'' 0.91))
   \<and> classify_resume example_constants (in_classifyElement 7 await_model_classify) (model_classify rejects)
         (example_page\<lparr>objectURLs := [7, 3], nextURL := 8\<rparr>)
       = Some (example_page\<lparr>objectURLs := [3], nextURL := 8\<rparr>, Rejected (Error ''Neural analysis failed''))
   \<and> 7 \<notin> set (objectURLs (example_page\<lparr>objectURLs := [3], nextURL := 8\<rparr>))"
proof -
  let ?p1 = "example_page\<lparr>objectURLs := [7, 3], nextURL := 8\<rparr>"
  let ?p2 = "example_page\<lparr>objectURLs := [3], nextURL := 8\<rparr>"
  note t = classify_releases_url [of example_page example_constants]
  have r: "URL_revokeObjectURL 7 ?p1 = ?p2"
    by (simp add: URL_revokeObjectURL_def example_page_def)
  have m: "model (wasteClassifier ?p1) \<noteq> None"
    by (simp add: example_page_def)
  have a: "classify example_page = (?p1, Suspended (await_img 7))"
    using t [THEN conjunct1] by (simp add: example_page_def)
  note t3 = t [THEN conjunct2, THEN conjunct2, THEN conjunct1, rule_format]
  note t6 = t [THEN conjunct2, THEN conjunct2, THEN conjunct2, THEN conjunct2, THEN conjunct2,
               THEN conjunct1, rule_format]
  note t7 = t [THEN conjunct2, THEN conjunct2, THEN conjunct2, THEN conjunct2, THEN conjunct2,
               THEN conjunct2, THEN conjunct1, rule_format]
  note t8 = t [THEN conjunct2, THEN conjunct2, THEN conjunct2, THEN conjunct2, THEN conjunct2,
               THEN conjunct2, THEN conjunct2, THEN conjunct1, rule_format]
  from m have b: "classify_resume example_constants (await_img 7) img_onload ?p1
       = Some (?p1, Suspended (in_classifyElement 7 await_model_classify))"
    by (rule t8)
  have "classify_resume example_constants (in_classifyElement 7 await_model_classify)
         (model_classify (resolves (Some [\<lparr>className = ''banana'', probability = 0.91\<rparr>]))) ?p1
       = Some (URL_revokeObjectURL 7 ?p1,
               Fulfilled (case Some [\<lparr>className = ''banana'', probability = 0.91\<rparr>] of
                               None \<Rightarrow> getUnknownResult example_constants None None
                             | Some [] \<Rightarrow> getUnknownResult example_constants None None
                             | Some (topResult # _) \<Rightarrow>
                                 mapLabelToWaste example_constants (className topResult) (probability topResult)))"
    by (rule t6)
  then have c: "classify_resume example_constants (in_classifyElement 7 await_model_classify)
         (model_classify (resolves (Some [\<lparr>className = ''banana'', probability = 0.91\<rparr>]))) ?p1
       = Some (?p2, Fulfilled (mapLabelToWaste example_constants ''banana'' 0.91))"
    unfolding r by (simp only: option.case list.case prediction.simps)
  have "classify_resume example_constants (in_classifyElement 7 await_model_classify) (model_classify rejects) ?p1
       = Some (URL_revokeObjectURL 7 ?p1, Rejected (Error ''Neural analysis failed''))"
    by (rule t7)
  then have d: "classify_resume example_constants (in_classifyElement 7 await_model_classify) (model_classify rejects) ?p1
       = Some (?p2, Rejected (Error ''Neural analysis failed''))"
    unfolding r .
  from t3 [OF c] have "imageUrl (in_classifyElement 7 await_model_classify) \<notin> set (objectURLs ?p2)"
    by (rule conjunct1)
  then have e: "7 \<notin> set (objectURLs ?p2)" unfolding imageUrl.simps .
  from a b c d e show ?thesis by (intro conjI)
qed

section \<open>Properties of the live camera view\<close>

lemma map_of_single:
  assumes "length xs \<le> 1" and "map_of xs h = Some r"
  shows "xs = [(h, r)]"
proof (cases xs)
  case Nil
  with assms show ?thesis by simp
next
  case (Cons x ys)
  with assms(1) have "ys = []" by simp
  with Cons assms(2) show ?thesis by (cases x) (auto split: if_splits)
qed

lemma scheduleNext_chain:
  "inferences (scheduleNext r w) = inferences w"
  "length (timeouts (scheduleNext r w)) \<le> Suc (length (timeouts w))"
  "getUserMedia_pending (scheduleNext r w) = getUserMedia_pending w"
  "isActive_prop (scheduleNext r w) = isActive_prop w"
  "result (scheduleNext r w) = result w"
  by (simp_all add: scheduleNext_def window_setTimeout_def)

lemma processFrame_frame:
  "getUserMedia_pending (processFrame r rs w) = getUserMedia_pending w"
  "isActive_prop (processFrame r rs w) = isActive_prop w"
  "result (processFrame r rs w) = result w"
  by (auto simp: processFrame_def scheduleNext_def window_setTimeout_def split: option.splits)

lemma processFrame_chain:
  assumes "inferences w = []" and "timeouts w = []"
  shows "length (inferences (processFrame r rs w)) + length (timeouts (processFrame r rs w)) \<le> Suc 0"
  using assms
  by (auto simp: processFrame_def scheduleNext_def window_setTimeout_def split: option.splits)

lemma processFrame_resume_frame:
  "getUserMedia_pending (processFrame_resume r s w) = getUserMedia_pending w"
  "isActive_prop (processFrame_resume r s w) = isActive_prop w"
  by (auto simp: processFrame_resume_def handleLiveResult_def scheduleNext_def window_setTimeout_def
           Let_def split: outcome.splits)

lemma processFrame_resume_chain:
  assumes "inferences w = []" and "timeouts w = []"
  shows "length (inferences (processFrame_resume r s w)) + length (timeouts (processFrame_resume r s w)) \<le> Suc 0"
  using assms
  by (auto simp: processFrame_resume_def handleLiveResult_def scheduleNext_def window_setTimeout_def
           Let_def split: outcome.splits)

lemma stopCamera_chain:
  "inferences (stopCamera w) = inferences w"
  "length (timeouts (stopCamera w)) \<le> length (timeouts w)"
  "isActive_prop (stopCamera w) = isActive_prop w"
  by (auto simp: stopCamera_def window_clearTimeout_def Let_def split: option.splits)

lemma chain_inv_step:
  assumes "chain_inv w"
  shows "chain_inv (step ev w)"
proof (cases ev)
  case (getUserMedia_settles s rs)
  show ?thesis
  proof (cases "getUserMedia_pending w")
    case False
    with assms getUserMedia_settles show ?thesis by simp
  next
    case True
    let ?w0 = "w\<lparr>getUserMedia_pending := False\<rparr>"
    have s: "step ev w = startCamera_resume s rs ?w0"
      using True getUserMedia_settles by simp
    have np: "\<not> getUserMedia_pending (startCamera_resume s rs ?w0)"
      by (auto simp: startCamera_resume_def Let_def processFrame_frame split: outcome.splits option.splits)
    have "length (inferences (startCamera_resume s rs ?w0)) + length (timeouts (startCamera_resume s rs ?w0)) \<le> 1"
    proof (cases "isActive_prop w")
      case False
      with assms show ?thesis
        by (auto simp: startCamera_resume_def Let_def chain_inv_def split: outcome.splits option.splits)
    next
      case act: True
      with True assms have e: "inferences w = []" "timeouts w = []" by (auto simp: chain_inv_def)
      then show ?thesis
        by (auto simp: startCamera_resume_def Let_def processFrame_chain split: outcome.splits option.splits)
    qed
    with np s show ?thesis by (simp add: chain_inv_def)
  qed
next
  case (timeout_fires h rs)
  show ?thesis
  proof (cases "map_of (timeouts w) h")
    case None
    with assms timeout_fires show ?thesis by simp
  next
    case (Some r)
    from assms have "length (timeouts w) \<le> 1" by (simp add: chain_inv_def)
    then have t: "timeouts w = [(h, r)]" using Some by (rule map_of_single)
    with assms have i: "inferences w = []" by (simp add: chain_inv_def)
    from assms t have p: "\<not> (getUserMedia_pending w \<and> isActive_prop w)" by (auto simp: chain_inv_def)
    let ?w0 = "window_clearTimeout h w"
    have "inferences ?w0 = []" "timeouts ?w0 = []"
      using t i by (simp_all add: window_clearTimeout_def)
    from processFrame_chain [OF this, of r rs] p Some timeout_fires show ?thesis
      by (auto simp: chain_inv_def window_clearTimeout_def processFrame_frame)
  qed
next
  case (classifyElement_settles k s)
  show ?thesis
  proof (cases "k < length (inferences w)")
    case False
    with assms classifyElement_settles show ?thesis by simp
  next
    case True
    with assms have "length (inferences w) + length (timeouts w) \<le> 1" "0 < length (inferences w)"
      by (auto simp: chain_inv_def)
    then have "length (inferences w) = 1" "length (timeouts w) = 0" by arith+
    with True have l: "length (inferences w) = 1" and t: "timeouts w = []" and k: "k = 0"
      by simp_all
    from assms True have p: "\<not> (getUserMedia_pending w \<and> isActive_prop w)" by (auto simp: chain_inv_def)
    let ?w0 = "w\<lparr>inferences := take k (inferences w) @ drop (Suc k) (inferences w)\<rparr>"
    have "inferences ?w0 = []" "timeouts ?w0 = []" using l t k by simp_all
    from processFrame_resume_chain [OF this, of "inferences w ! k" s] p True classifyElement_settles
    show ?thesis by (auto simp: chain_inv_def processFrame_resume_frame)
  qed
next
  case deactivate
  show ?thesis
  proof (cases "isActive_prop w")
    case False
    with assms deactivate show ?thesis by simp
  next
    case True
    let ?w0 = "w\<lparr>isActive_prop := False\<rparr>"
    have "length (timeouts (stopCamera (stopCamera ?w0))) \<le> length (timeouts w)"
      using stopCamera_chain(2) [of "stopCamera ?w0"] stopCamera_chain(2) [of ?w0] by simp
    with assms True deactivate show ?thesis
      by (simp add: chain_inv_def stopCamera_chain)
  qed
next
  case unmount
  show ?thesis
  proof (cases "is_unmounted w")
    case True
    with assms unmount show ?thesis by simp
  next
    case False
    let ?w0 = "w\<lparr>videoRef := None, is_unmounted := True\<rparr>"
    have "length (timeouts (stopCamera ?w0)) \<le> length (timeouts w)"
      using stopCamera_chain(2) [of ?w0] by simp
    moreover have "timeouts w = [] \<Longrightarrow> timeouts (stopCamera ?w0) = []"
      using stopCamera_chain(2) [of ?w0] by simp
    moreover have "getUserMedia_pending (stopCamera ?w0) = getUserMedia_pending w"
      by (simp add: stopCamera_def Let_def window_clearTimeout_def split: option.splits)
    ultimately show ?thesis
      using assms False unmount by (auto simp: chain_inv_def stopCamera_chain)
  qed
qed

lemma chain_inv_mounted: "chain_inv mounted"
  by (simp add: chain_inv_def mounted_def)

lemma run_snoc: "run (evs @ [ev]) w = step ev (run evs w)"
  by (simp add: run_def)

lemma chain_inv_run: "chain_inv (run evs mounted)"
proof (induction evs rule: rev_induct)
  case Nil
  show ?case by (simp add: run_def chain_inv_mounted)
next
  case (snoc ev evs)
  then show ?case by (simp add: run_snoc chain_inv_step)
qed

text \<open>
  Claim C4. In every state a mounted view reaches, whatever the events and their order
  (timeouts firing, the camera answering, inferences settling early or late, the
  deactivation, the unmount), the inferences in flight and the pending timeouts together
  number at most one: at most one inference is outstanding at any time, and while one is
  outstanding no tick is pending that could start another, the next tick being scheduled
  only when the inference has settled.
\<close>

theorem single_flight:
  "length (inferences (run evs mounted)) + length (timeouts (run evs mounted)) \<le> 1"
  using chain_inv_run [of evs] by (simp add: chain_inv_def)

lemma session_inv_mounted: "session_inv mounted"
  by (simp add: session_inv_def mounted_def)

lemma session_inv_scheduleNext:
  assumes "session_inv w" and "timeouts w = []" and "isStreaming_state w"
  shows "session_inv (scheduleNext r w)"
  using assms
  by (auto simp: session_inv_def scheduleNext_def window_setTimeout_def)

lemma session_inv_processFrame:
  assumes "session_inv w" and "timeouts w = []" and "isStreaming_state w"
  shows "session_inv (processFrame r rs w)"
proof (cases "\<not> isActive r \<or> \<not> isStreaming r \<or> isProcessingRef w \<or> rs < 3")
  case True
  with assms have "processFrame r rs w = scheduleNext r w"
    by (auto simp: processFrame_def session_inv_def split: option.splits)
  with assms show ?thesis by (simp add: session_inv_scheduleNext)
next
  case False
  with assms have "processFrame r rs w = w\<lparr>isProcessingRef := True, inferences := inferences w @ [r]\<rparr>"
    by (auto simp: processFrame_def session_inv_def split: option.splits)
  with assms show ?thesis by (simp add: session_inv_def)
qed

lemma session_inv_step:
  assumes "session_inv w" and "chain_inv w" and "ev \<noteq> deactivate" and "ev \<noteq> unmount"
  shows "session_inv (step ev w)"
proof (cases ev)
  case (getUserMedia_settles s rs)
  show ?thesis
  proof (cases "getUserMedia_pending w")
    case False
    with assms getUserMedia_settles show ?thesis by simp
  next
    case True
    with assms(1) have ns: "\<not> isStreaming_state w" and e: "inferences w = []" "timeouts w = []"
      "mediaStreams w = []" "videoRef w = Some \<lparr>srcObject = None\<rparr>" "isActive_prop w"
      "\<not> isProcessingRef w"
      by (auto simp: session_inv_def split: if_splits)
    show ?thesis
    proof (cases s)
      case rejects
      with True getUserMedia_settles assms(1) ns show ?thesis
        by (simp add: startCamera_resume_def session_inv_def)
    next
      case (resolves tracks)
      let ?w3 = "w\<lparr>getUserMedia_pending := False, mediaStreams := [tracks],
                   videoRef := Some \<lparr>srcObject = Some 0\<rparr>, isStreaming_state := True\<rparr>"
      have "step ev w = processFrame \<lparr>isActive = True, isStreaming = True\<rparr> rs ?w3"
        using True getUserMedia_settles resolves ns e
        by (simp add: startCamera_resume_def Let_def)
      moreover have "session_inv ?w3"
        using assms(1) e by (simp add: session_inv_def)
      moreover have "timeouts ?w3 = []" "isStreaming_state ?w3" using e by simp_all
      ultimately show ?thesis by (simp add: session_inv_processFrame)
    qed
  qed
next
  case (timeout_fires h rs)
  show ?thesis
  proof (cases "map_of (timeouts w) h")
    case None
    with assms timeout_fires show ?thesis by simp
  next
    case (Some r)
    from assms(2) have "length (timeouts w) \<le> 1" by (simp add: chain_inv_def)
    then have t: "timeouts w = [(h, r)]" using Some by (rule map_of_single)
    with assms(1) have st: "isStreaming_state w" by (auto simp: session_inv_def split: if_splits)
    let ?w0 = "window_clearTimeout h w"
    have "session_inv ?w0" using assms(1) t st
      by (simp add: session_inv_def window_clearTimeout_def)
    moreover have "timeouts ?w0 = []" "isStreaming_state ?w0"
      using t st by (simp_all add: window_clearTimeout_def)
    ultimately have "session_inv (processFrame r rs ?w0)" by (rule session_inv_processFrame)
    with Some timeout_fires show ?thesis by simp
  qed
next
  case (classifyElement_settles k s)
  show ?thesis
  proof (cases "k < length (inferences w)")
    case False
    with assms classifyElement_settles show ?thesis by simp
  next
    case True
    with assms(2) have "length (inferences w) + length (timeouts w) \<le> 1" "0 < length (inferences w)"
      by (auto simp: chain_inv_def)
    then have "length (inferences w) = 1" "length (timeouts w) = 0" by arith+
    with True have l: "length (inferences w) = 1" and t: "timeouts w = []" and k: "k = 0"
      by simp_all
    from assms(1) l have st: "isStreaming_state w" by (auto simp: session_inv_def split: if_splits)
    let ?w0 = "w\<lparr>inferences := take k (inferences w) @ drop (Suc k) (inferences w)\<rparr>"
    let ?w1 = "case s of resolves res \<Rightarrow> handleLiveResult res ?w0 | rejects \<Rightarrow> ?w0"
    let ?w2 = "?w1\<lparr>isProcessingRef := False\<rparr>"
    have "session_inv ?w2" using assms(1) l k t st
      by (auto simp: session_inv_def handleLiveResult_def split: outcome.splits)
    moreover have "timeouts ?w2 = []" "isStreaming_state ?w2" using t st
      by (auto simp: handleLiveResult_def split: outcome.splits)
    ultimately have "session_inv (scheduleNext (inferences w ! k) ?w2)"
      by (rule session_inv_scheduleNext)
    with True classifyElement_settles show ?thesis
      by (simp add: processFrame_resume_def Let_def)
  qed
next
  case deactivate
  with assms show ?thesis by simp
next
  case unmount
  with assms show ?thesis by simp
qed

lemma session_inv_run:
  assumes "deactivate \<notin> set evs" and "unmount \<notin> set evs"
  shows "session_inv (run evs mounted)"
  using assms
proof (induction evs rule: rev_induct)
  case Nil
  show ?case by (simp add: run_def session_inv_mounted)
next
  case (snoc ev evs)
  then have "session_inv (run evs mounted)" and "ev \<noteq> deactivate" and "ev \<noteq> unmount" by auto
  then show ?case by (simp add: run_snoc session_inv_step chain_inv_run)
qed

lemma scheduleNext_result: "result (scheduleNext r w) = result w"
  by (simp add: scheduleNext_def window_setTimeout_def)

lemma settle_result:
  assumes "k < length (inferences w)"
  shows "result (step (classifyElement_settles k (resolves r)) w) = result (handleLiveResult r w)"
  using assms
  by (simp add: processFrame_resume_def Let_def scheduleNext_result handleLiveResult_def)

text \<open>
  Claim C6. \<open>CameraView\<close> hands every result of a live inference to its \<^verbatim>\<open>onResult\<close>, which
  is \<open>handleLiveResult\<close>; the sink is the state \<^verbatim>\<open>result\<close> of the application. A result reaches
  it if and only if its confidence is strictly above 0.2: with a confidence above 0.2 the
  state becomes that result; with a confidence of 0.2 or less the handler changes
  nothing at all, whatever the state was. A failed inference leaves the state untouched.
\<close>

theorem confidence_gate:
  "(0.2 < confidence r \<longrightarrow> result (handleLiveResult r w) = Some r)
   \<and> (confidence r \<le> 0.2 \<longrightarrow> handleLiveResult r w = w)
   \<and> (k < length (inferences w) \<longrightarrow>
        result (step (classifyElement_settles k (resolves r)) w) = result (handleLiveResult r w))
   \<and> result (step (classifyElement_settles k rejects) w) = result w"
proof (intro conjI impI)
  show "result (handleLiveResult r w) = Some r" if "0.2 < confidence r"
    using that by (simp add: handleLiveResult_def)
  show "handleLiveResult r w = w" if "confidence r \<le> 0.2"
    using that by (simp add: handleLiveResult_def)
  show "result (step (classifyElement_settles k (resolves r)) w) = result (handleLiveResult r w)"
    if "k < length (inferences w)"
    using that by (rule settle_result)
  show "result (step (classifyElement_settles k rejects) w) = result w"
    by (simp add: processFrame_resume_def Let_def scheduleNext_result)
qed

text \<open>
  Two sessions to evaluate on. In both the camera answers with a stream of two tracks
  while the video is not yet ready, so the first \<^verbatim>\<open>processFrame\<close> only schedules a tick:
  in \<open>example_tick\<close> that tick is pending; in \<open>example_session\<close> it has fired with the video
  ready and has started an inference, which is in flight.
\<close>

lemma example_tick:
  "run [getUserMedia_settles (resolves [live, live]) 0] mounted =
     \<lparr> videoRef = Some \<lparr>srcObject = Some 0\<rparr>, requestRef = Some 1, isProcessingRef = False,
       isActive_prop = True, is_unmounted = False, isStreaming_state = True, error_state = None,
       getUserMedia_pending = False, mediaStreams = [[live, live]],
       timeouts = [(1, \<lparr>isActive = True, isStreaming = True\<rparr>)], nextTimeout = 2,
       inferences = [], result = None \<rparr>"
  by (simp add: run_def mounted_def startCamera_resume_def processFrame_def scheduleNext_def
      window_setTimeout_def Let_def)

lemma example_session:
  "run [getUserMedia_settles (resolves [live, live]) 0, timeout_fires 1 4] mounted =
     \<lparr> videoRef = Some \<lparr>srcObject = Some 0\<rparr>, requestRef = Some 1, isProcessingRef = True,
       isActive_prop = True, is_unmounted = False, isStreaming_state = True, error_state = None,
       getUserMedia_pending = False, mediaStreams = [[live, live]], timeouts = [], nextTimeout = 2,
       inferences = [\<lparr>isActive = True, isStreaming = True\<rparr>], result = None \<rparr>"
  using run_snoc [of "[getUserMedia_settles (resolves [live, live]) 0]" "timeout_fires 1 4" mounted]
  unfolding example_tick
  by (simp add: processFrame_def window_clearTimeout_def)

theorem confidence_gate_witness:
  "result (step (classifyElement_settles 0 (resolves (example_result 0.9)))
            (run [getUserMedia_settles (resolves [live, live]) 0, timeout_fires 1 4] mounted))
     = Some (example_result 0.9)
   \<and> result (step (classifyElement_settles 0 (resolves (example_result 0.2)))
            (run [getUserMedia_settles (resolves [live, live]) 0, timeout_fires 1 4] mounted))
     = None"
proof -
  let ?w = "run [getUserMedia_settles (resolves [live, live]) 0, timeout_fires 1 4] mounted"
  have k: "0 < length (inferences ?w)" and n: "result ?w = None"
    unfolding example_session by simp_all
  have hi: "0.2 < confidence (example_result 0.9)" and lo: "confidence (example_result 0.2) \<le> 0.2"
    by (simp_all add: example_result_def)
  from confidence_gate [of "example_result 0.9" ?w 0] k hi
  have 1: "result (step (classifyElement_settles 0 (resolves (example_result 0.9))) ?w)
             = Some (example_result 0.9)" by simp
  from confidence_gate [of "example_result 0.2" ?w 0] k lo n
  have 2: "result (step (classifyElement_settles 0 (resolves (example_result 0.2))) ?w) = None"
    by simp
  from 1 2 show ?thesis by (rule conjI)
qed

text \<open>
  Claim C5, as stated, fails in its last part. The claim: deactivating an active session
  cancels the pending tick and stops all tracks, and the result of an inference that was
  in flight at the deactivation is discarded; after deactivation no result is delivered
  to the sink. The session \<open>example_session\<close> is deactivated the way the application does
  it, by unmounting the view while the inference is in flight: after the unmount the
  sink is empty and the inference is still in flight, and its result, settling
  afterwards with confidence 0.9, is stored in the sink.
\<close>

theorem late_result_forwarded:
  "result (run [getUserMedia_settles (resolves [live, live]) 0, timeout_fires 1 4, unmount] mounted)
     = None
   \<and> is_unmounted (run [getUserMedia_settles (resolves [live, live]) 0, timeout_fires 1 4, unmount] mounted)
     = True
   \<and> inferences (run [getUserMedia_settles (resolves [live, live]) 0, timeout_fires 1 4, unmount] mounted)
     = [\<lparr>isActive = True, isStreaming = True\<rparr>]
   \<and> result (run [getUserMedia_settles (resolves [live, live]) 0, timeout_fires 1 4, unmount,
                  classifyElement_settles 0 (resolves (example_result 0.9))] mounted)
     = Some (example_result 0.9)"
proof -
  have d: "run [getUserMedia_settles (resolves [live, live]) 0, timeout_fires 1 4, unmount] mounted =
     \<lparr> videoRef = None, requestRef = None, isProcessingRef = False,
       isActive_prop = True, is_unmounted = True, isStreaming_state = False, error_state = None,
       getUserMedia_pending = False, mediaStreams = [[live, live]], timeouts = [], nextTimeout = 2,
       inferences = [\<lparr>isActive = True, isStreaming = True\<rparr>], result = None \<rparr>"
    using run_snoc [of "[getUserMedia_settles (resolves [live, live]) 0, timeout_fires 1 4]" unmount mounted]
    unfolding example_session
    by (simp add: stopCamera_def window_clearTimeout_def Let_def)
  from run_snoc [of "[getUserMedia_settles (resolves [live, live]) 0, timeout_fires 1 4, unmount]"
        "classifyElement_settles 0 (resolves (example_result 0.9))" mounted]
  have "result (run [getUserMedia_settles (resolves [live, live]) 0, timeout_fires 1 4, unmount,
                  classifyElement_settles 0 (resolves (example_result 0.9))] mounted)
     = Some (example_result 0.9)"
    unfolding d
    by (simp add: processFrame_resume_def Let_def scheduleNext_result handleLiveResult_def example_result_def)
  with d show ?thesis by simp
qed

text \<open>
  \<open>stopCamera\<close> clears the timeout that \<^verbatim>\<open>requestRef\<close> holds, whatever \<^verbatim>\<open>videoRef\<close> is, and
  touches neither the suspended calls nor the sink.
\<close>

lemma stopCamera_frame:
  "inferences (stopCamera w) = inferences w"
  "result (stopCamera w) = result w"
  by (auto simp: stopCamera_def Let_def window_clearTimeout_def split: option.splits)

lemma stopCamera_clears:
  assumes "\<forall>t \<in> set (timeouts w). requestRef w = Some (fst t) \<and> fst t \<noteq> 0"
  shows "timeouts (stopCamera w) = []"
proof (cases "timeouts w")
  case Nil
  then show ?thesis
    by (auto simp: stopCamera_def Let_def window_clearTimeout_def split: option.splits)
next
  case (Cons x xs)
  with assms have r: "requestRef w = Some (fst x)" "fst x \<noteq> 0" by simp_all
  from assms r have "\<forall>t \<in> set (timeouts w). fst t = fst x" by auto
  then have "filter (\<lambda>t. fst t \<noteq> fst x) (timeouts w) = []" by (simp add: filter_empty_conv)
  with r show ?thesis
    by (auto simp: stopCamera_def Let_def window_clearTimeout_def split: option.splits)
qed

text \<open>
  Claim C5, amended. Deactivating a live session that has not been deactivated before,
  by unmounting the view or by turning \<^verbatim>\<open>isActive\<close> to false, cancels the scheduled tick
  that is pending at that moment: no timeout is left pending. An inference in flight at
  that moment is not cancelled: it stays in flight, and when it settles with a result,
  that result is still handed to \<open>handleLiveResult\<close>, which stores it in the sink when its
  confidence is above 0.2.
\<close>

theorem deactivate_session:
  assumes "deactivate \<notin> set evs" and "unmount \<notin> set evs" and "w = run evs mounted"
    and "d = unmount \<or> d = deactivate"
  shows "timeouts (step d w) = []
       \<and> inferences (step d w) = inferences w
       \<and> (\<forall>k r. k < length (inferences w) \<longrightarrow>
             result (step (classifyElement_settles k (resolves r)) (step d w)) =
               (if 0.2 < confidence r then Some r else result w))"
proof -
  from assms(1-3) have inv: "session_inv w" by (simp add: session_inv_run)
  then have act: "isActive_prop w" and mnt: "\<not> is_unmounted w"
    and tm: "\<forall>t \<in> set (timeouts w). requestRef w = Some (fst t) \<and> fst t \<noteq> 0"
    by (simp_all add: session_inv_def)
  have t: "timeouts (step d w) = []" and i: "inferences (step d w) = inferences w"
    and r: "result (step d w) = result w"
  proof -
    from assms(4) show "timeouts (step d w) = []"
    proof
      assume "d = unmount"
      moreover have "timeouts (stopCamera (w\<lparr>videoRef := None, is_unmounted := True\<rparr>)) = []"
        using tm by (intro stopCamera_clears) simp
      ultimately show ?thesis using mnt by simp
    next
      assume "d = deactivate"
      moreover have "timeouts (stopCamera (w\<lparr>isActive_prop := False\<rparr>)) = []"
        using tm by (intro stopCamera_clears) simp
      then have "timeouts (stopCamera (stopCamera (w\<lparr>isActive_prop := False\<rparr>))) = []"
        using stopCamera_chain(2) [of "stopCamera (w\<lparr>isActive_prop := False\<rparr>)"] by simp
      ultimately show ?thesis using act mnt by simp
    qed
    from assms(4) act mnt show "inferences (step d w) = inferences w"
      by (auto simp: stopCamera_frame)
    from assms(4) act mnt show "result (step d w) = result w"
      by (auto simp: stopCamera_frame)
  qed
  have "result (step (classifyElement_settles k (resolves r)) (step d w)) =
               (if 0.2 < confidence r then Some r else result w)"
    if "k < length (inferences w)" for k r
  proof -
    from that i have "k < length (inferences (step d w))" by simp
    then have "result (step (classifyElement_settles k (resolves r)) (step d w))
                 = result (handleLiveResult r (step d w))"
      by (rule settle_result)
    also have "\<dots> = (if 0.2 < confidence r then Some r else result w)"
      using r by (simp add: handleLiveResult_def)
    finally show ?thesis .
  qed
  with t i show ?thesis by blast
qed

theorem deactivate_session_witness:
  "timeouts (run [getUserMedia_settles (resolves [live, live]) 0] mounted)
       = [(1, \<lparr>isActive = True, isStreaming = True\<rparr>)]
   \<and> timeouts (step unmount (run [getUserMedia_settles (resolves [live, live]) 0] mounted)) = []
   \<and> timeouts (step deactivate (run [getUserMedia_settles (resolves [live, live]) 0] mounted)) = []
   \<and> inferences (step unmount (run [getUserMedia_settles (resolves [live, live]) 0, timeout_fires 1 4] mounted))
       = [\<lparr>isActive = True, isStreaming = True\<rparr>]
   \<and> result (step (classifyElement_settles 0 (resolves (example_result 0.9)))
        (step unmount (run [getUserMedia_settles (resolves [live, live]) 0, timeout_fires 1 4] mounted)))
       = Some (example_result 0.9)"
proof -
  let ?tick = "[getUserMedia_settles (resolves [live, live]) 0]"
  let ?evs = "[getUserMedia_settles (resolves [live, live]) 0, timeout_fires 1 4]"
  let ?w = "run ?evs mounted"
  have a: "deactivate \<notin> set ?tick" "unmount \<notin> set ?tick" by simp_all
  have b: "deactivate \<notin> set ?evs" "unmount \<notin> set ?evs" by simp_all
  have p: "timeouts (run ?tick mounted) = [(1, \<lparr>isActive = True, isStreaming = True\<rparr>)]"
    unfolding example_tick by simp
  have i: "inferences ?w = [\<lparr>isActive = True, isStreaming = True\<rparr>]" unfolding example_session by simp
  have k: "0 < length (inferences ?w)" unfolding example_session by simp
  have c: "0.2 < confidence (example_result 0.9)" by (simp add: example_result_def)
  have 1: "timeouts (step unmount (run ?tick mounted)) = []"
    using deactivate_session [OF a refl disjI1 [OF refl]] by (rule conjunct1)
  have 2: "timeouts (step deactivate (run ?tick mounted)) = []"
    using deactivate_session [OF a refl disjI2 [OF refl]] by (rule conjunct1)
  note t = deactivate_session [OF b refl disjI1 [OF refl]]
  from t [THEN conjunct2, THEN conjunct1] i
  have 3: "inferences (step unmount ?w) = [\<lparr>isActive = True, isStreaming = True\<rparr>]"
    by (rule trans)
  from t [THEN conjunct2, THEN conjunct2, THEN spec, THEN spec, THEN mp, OF k]
  have "result (step (classifyElement_settles 0 (resolves (example_result 0.9))) (step unmount ?w))
       = (if 0.2 < confidence (example_result 0.9) then Some (example_result 0.9) else result ?w)" .
  with c have 4: "result (step (classifyElement_settles 0 (resolves (example_result 0.9))) (step unmount ?w))
       = Some (example_result 0.9)"
    by (simp only: if_True)
  from p 1 2 3 4 show ?thesis by (intro conjI)
qed

text \<open>
  The tracks are outside the amended claim. \<open>stopCamera\<close> reaches them through
  \<^verbatim>\<open>videoRef.current\<close> only: called when that ref is \<^verbatim>\<open>null\<close>, as in the cleanup at the
  unmount, it stops no track, and the tracks of the session above stay live.
\<close>

lemma stopCamera_without_video:
  assumes "videoRef w = None"
  shows "mediaStreams (stopCamera w) = mediaStreams w"
  using assms by (simp add: stopCamera_def Let_def window_clearTimeout_def split: option.splits)

lemma unmount_keeps_tracks_live:
  "mediaStreams (step unmount (run [getUserMedia_settles (resolves [live, live]) 0, timeout_fires 1 4] mounted))
     = [[live, live]]"
  unfolding example_session by (simp add: stopCamera_without_video)
end
